theory Spec2Isabelle
  imports Main "HOL-Library.Word"
begin

section \<open>ImageWriter: a threaded block-level copy through a ring of slots\<close>

text \<open>
  The program (ImageWriter.c) copies \<open>file_in\<close> to \<open>file_out\<close> with two threads that
  share a \<open>thread_data\<close> structure: \<open>readerThread\<close> fills the slots of a ring buffer,
  \<open>writerThread\<close> drains them, and the counter \<open>numToWrite\<close>, guarded by \<open>rw_mutex\<close> and
  two condition variables, hands slots from one to the other. A third thread,
  \<open>statusWriter\<close>, prints percentages.

  The embedding is a small-step interleaving semantics. Every C statement of the two
  thread bodies is one atomic step, a program location per statement; a schedule (a list
  of thread ids) picks who moves next. The integers have the widths of the C types:
  \<open>unsigned int\<close> and \<open>int\<close> are 32-bit words, \<open>size_t\<close> is a 64-bit word.

  A thread inside \<open>pthread_cond_wait\<close> has released the mutex. It leaves the wait, to
  re-acquire the mutex, either because the other thread signals the condition variable or
  on its own accord: POSIX allows \<open>pthread_cond_wait\<close> to return without a signal. Both
  waits of the program stand under an \<open>if\<close>, so after either kind of return the thread
  goes on without looking at the counter again.
\<close>

subsection \<open>Data\<close>

type_synonym byte = "8 word"
type_synonym uint = "32 word"
type_synonym cint = "32 word"
type_synonym size_t = "64 word"

text \<open>The globals \<open>block_size\<close> and \<open>num_block\<close>, fixed by \<open>main\<close> before any thread starts.\<close>

record config =
  block_size :: uint
  num_block :: uint

text \<open>\<open>struct block\<close>; the fields are \<open>size\<close> and \<open>end\<close> in the source.\<close>

record block =
  size_blk :: size_t
  end_blk :: bool

text \<open>
  What the program meets outside itself: the bytes of the input file; \<open>src_bad_after = Some n\<close>
  makes every \<open>read\<close> at a file offset \<open>\<ge> n\<close> fail with \<open>-1\<close>; \<open>dst_room = Some c\<close> lets the
  output take \<open>c\<close> bytes and no more; \<open>malloc_fill\<close> is the indeterminate content of the
  memory that \<open>malloc\<close> returns.
\<close>

record environ =
  src_data :: "byte list"
  src_bad_after :: "nat option"
  dst_room :: "nat option"
  malloc_fill :: "nat \<Rightarrow> byte"

datatype tid = Reader | Writer

text \<open>The program locations: one per statement of \<open>readerThread\<close> and of \<open>writerThread\<close>.\<close>

datatype rloc =
    R_lock1 | R_check | R_wait | R_relock | R_unlock1
  | R_read | R_switch | R_err_end | R_err_size | R_size
  | R_lock2 | R_inc | R_signal | R_unlock2
  | R_endchk | R_account | R_next | R_done

datatype wloc =
    W_lock1 | W_check | W_wait | W_relock | W_unlock1
  | W_write | W_chk_err | W_chk_short | W_endchk
  | W_lock2 | W_dec | W_signal | W_unlock2
  | W_account | W_next | W_done

text \<open>
  The calls and hand-overs a run performs, in the order they happen, and the returns from
  \<open>pthread_cond_wait\<close> that no signal caused (\<open>Ev_wakeup\<close>). The log is a history
  variable: no step reads it.
\<close>

datatype event =
    Ev_read uint cint
  | Ev_perror string
  | Ev_publish uint block
  | Ev_signal_write_cv
  | Ev_write uint size_t cint
  | Ev_printf string
  | Ev_release uint
  | Ev_signal_read_cv
  | Ev_exit tid
  | Ev_wakeup tid

text \<open>
  \<open>struct thread_data\<close>. The descriptor \<open>file_in\<close> is modelled by its file offset, the
  descriptor \<open>file_out\<close> by the bytes written through it so far (the output file from
  offset 0 on).
\<close>

record thread_data =
  blocks :: "block list"
  buf :: "byte list"
  numToWrite :: uint
  file_in :: nat
  file_out :: "byte list"
  read :: size_t
  wrote :: size_t
  fsize :: size_t
  rwaits :: uint
  wwaits :: uint

text \<open>
  The whole state: the shared structure, the owner of \<open>rw_mutex\<close>, and for each thread
  its location and its locals \<open>idx\<close> and \<open>ret\<close>.
\<close>

record state = thread_data +
  rw_mutex :: "tid option"
  r_pc :: rloc
  r_idx :: uint
  r_ret :: cint
  w_pc :: wloc
  w_idx :: uint
  w_ret :: cint
  events :: "event list"

subsection \<open>The macros\<close>

definition next_block_idx :: "config \<Rightarrow> uint \<Rightarrow> uint" where
  "next_block_idx cfg curr_block = (curr_block + 1) mod num_block cfg"

definition buf_idx :: "config \<Rightarrow> uint \<Rightarrow> uint" where
  "buf_idx cfg idx = idx * block_size cfg"

subsection \<open>Memory and system calls\<close>

definition store_bytes :: "byte list \<Rightarrow> nat \<Rightarrow> byte list \<Rightarrow> byte list" where
  "store_bytes m off bs = take off m @ bs @ drop (off + length bs) m"

definition load_bytes :: "byte list \<Rightarrow> nat \<Rightarrow> nat \<Rightarrow> byte list" where
  "load_bytes m off n = take n (drop off m)"

text \<open>
  \<open>read(fd, p, count)\<close> at file offset \<open>pos\<close>: \<open>None\<close> is the error return \<open>-1\<close>, otherwise
  the next \<open>min count remaining\<close> bytes (none at the end of the file).
\<close>

definition sys_read :: "environ \<Rightarrow> nat \<Rightarrow> nat \<Rightarrow> byte list option" where
  "sys_read env pos count =
     (case src_bad_after env of
        None \<Rightarrow> Some (take count (drop pos (src_data env)))
      | Some n \<Rightarrow> if n \<le> pos then None
                  else Some (take count (drop pos (take n (src_data env)))))"

text \<open>
  \<open>write(fd, p, count)\<close> after \<open>sent_before\<close> bytes went out: \<open>None\<close> is the error return \<open>-1\<close>,
  otherwise the bytes that were transferred (all of them when there is room).
\<close>

definition sys_write :: "environ \<Rightarrow> nat \<Rightarrow> byte list \<Rightarrow> byte list option" where
  "sys_write env sent_before req =
     (case dst_room env of
        None \<Rightarrow> Some req
      | Some c \<Rightarrow> if c \<le> sent_before \<and> req \<noteq> [] then None
                  else Some (take (c - sent_before) req))"

subsection \<open>readerThread\<close>

definition set_end :: "block list \<Rightarrow> uint \<Rightarrow> bool \<Rightarrow> block list" where
  "set_end bl idx b = bl[unat idx := (bl ! unat idx)\<lparr>end_blk := b\<rparr>]"

definition set_size :: "block list \<Rightarrow> uint \<Rightarrow> size_t \<Rightarrow> block list" where
  "set_size bl idx n = bl[unat idx := (bl ! unat idx)\<lparr>size_blk := n\<rparr>]"

definition readerThread_step :: "config \<Rightarrow> environ \<Rightarrow> state \<Rightarrow> state option" where
  "readerThread_step cfg env s =
    (case r_pc s of
       R_lock1 \<Rightarrow>
         if rw_mutex s = None then Some (s\<lparr>rw_mutex := Some Reader, r_pc := R_check\<rparr>)
         else None
     | R_check \<Rightarrow>
         if numToWrite s \<ge> num_block cfg
         then Some (s\<lparr>rwaits := rwaits s + 1, rw_mutex := None, r_pc := R_wait\<rparr>)
         else Some (s\<lparr>r_pc := R_unlock1\<rparr>)
     | R_wait \<Rightarrow> Some (s\<lparr>r_pc := R_relock, events := events s @ [Ev_wakeup Reader]\<rparr>)
     | R_relock \<Rightarrow>
         if rw_mutex s = None then Some (s\<lparr>rw_mutex := Some Reader, r_pc := R_unlock1\<rparr>)
         else None
     | R_unlock1 \<Rightarrow> Some (s\<lparr>rw_mutex := None, r_pc := R_read\<rparr>)
     | R_read \<Rightarrow>
         (case sys_read env (file_in s) (unat (block_size cfg)) of
            None \<Rightarrow>
              Some (s\<lparr>r_ret := - 1, r_pc := R_switch,
                      events := events s @ [Ev_read (r_idx s) (- 1)]\<rparr>)
          | Some chunk \<Rightarrow>
              Some (s\<lparr>buf := store_bytes (buf s) (unat (buf_idx cfg (r_idx s))) chunk,
                      file_in := file_in s + length chunk,
                      r_ret := of_nat (length chunk), r_pc := R_switch,
                      events := events s @ [Ev_read (r_idx s) (of_nat (length chunk))]\<rparr>))
     | R_switch \<Rightarrow>
         if r_ret s = - 1
         then Some (s\<lparr>r_pc := R_err_end, events := events s @ [Ev_perror ''read error: '']\<rparr>)
         else if r_ret s = 0
         then Some (s\<lparr>blocks := set_end (blocks s) (r_idx s) True, r_pc := R_size\<rparr>)
         else Some (s\<lparr>blocks := set_size (blocks s) (r_idx s) (scast (r_ret s)),
                       r_pc := R_lock2\<rparr>)
     | R_err_end \<Rightarrow>
         Some (s\<lparr>blocks := set_end (blocks s) (r_idx s) True, r_pc := R_err_size\<rparr>)
     | R_err_size \<Rightarrow>
         Some (s\<lparr>blocks := set_size (blocks s) (r_idx s) 0, r_pc := R_done,
                 events := events s @ [Ev_exit Reader]\<rparr>)
     | R_size \<Rightarrow>
         Some (s\<lparr>blocks := set_size (blocks s) (r_idx s) (scast (r_ret s)), r_pc := R_lock2\<rparr>)
     | R_lock2 \<Rightarrow>
         if rw_mutex s = None then Some (s\<lparr>rw_mutex := Some Reader, r_pc := R_inc\<rparr>)
         else None
     | R_inc \<Rightarrow>
         Some (s\<lparr>numToWrite := numToWrite s + 1, r_pc := R_signal,
                 events := events s @ [Ev_publish (r_idx s) (blocks s ! unat (r_idx s))]\<rparr>)
     | R_signal \<Rightarrow>
         Some (s\<lparr>w_pc := (if w_pc s = W_wait then W_relock else w_pc s), r_pc := R_unlock2,
                 events := events s @ [Ev_signal_write_cv]\<rparr>)
     | R_unlock2 \<Rightarrow> Some (s\<lparr>rw_mutex := None, r_pc := R_endchk\<rparr>)
     | R_endchk \<Rightarrow>
         if end_blk (blocks s ! unat (r_idx s))
         then Some (s\<lparr>r_pc := R_done, events := events s @ [Ev_exit Reader]\<rparr>)
         else Some (s\<lparr>r_pc := R_account\<rparr>)
     | R_account \<Rightarrow>
         Some (s\<lparr>read := read s + size_blk (blocks s ! unat (r_idx s)), r_pc := R_next\<rparr>)
     | R_next \<Rightarrow>
         if num_block cfg = 0 then None
         else Some (s\<lparr>r_idx := next_block_idx cfg (r_idx s), r_pc := R_lock1\<rparr>)
     | R_done \<Rightarrow> None)"

subsection \<open>writerThread\<close>

definition writerThread_step :: "config \<Rightarrow> environ \<Rightarrow> state \<Rightarrow> state option" where
  "writerThread_step cfg env s =
    (case w_pc s of
       W_lock1 \<Rightarrow>
         if rw_mutex s = None then Some (s\<lparr>rw_mutex := Some Writer, w_pc := W_check\<rparr>)
         else None
     | W_check \<Rightarrow>
         if numToWrite s < 1
         then Some (s\<lparr>wwaits := wwaits s + 1, rw_mutex := None, w_pc := W_wait\<rparr>)
         else Some (s\<lparr>w_pc := W_unlock1\<rparr>)
     | W_wait \<Rightarrow> Some (s\<lparr>w_pc := W_relock, events := events s @ [Ev_wakeup Writer]\<rparr>)
     | W_relock \<Rightarrow>
         if rw_mutex s = None then Some (s\<lparr>rw_mutex := Some Writer, w_pc := W_unlock1\<rparr>)
         else None
     | W_unlock1 \<Rightarrow> Some (s\<lparr>rw_mutex := None, w_pc := W_write\<rparr>)
     | W_write \<Rightarrow>
         (let n = size_blk (blocks s ! unat (w_idx s));
              req = load_bytes (buf s) (unat (buf_idx cfg (w_idx s))) (unat n)
          in case sys_write env (length (file_out s)) req of
               None \<Rightarrow>
                 Some (s\<lparr>w_ret := - 1, w_pc := W_chk_err,
                         events := events s @ [Ev_write (w_idx s) n (- 1)]\<rparr>)
             | Some sent \<Rightarrow>
                 Some (s\<lparr>file_out := file_out s @ sent,
                         w_ret := of_nat (length sent), w_pc := W_chk_err,
                         events := events s @ [Ev_write (w_idx s) n (of_nat (length sent))]\<rparr>))
     | W_chk_err \<Rightarrow>
         if w_ret s = - 1
         then Some (s\<lparr>w_pc := W_chk_short, events := events s @ [Ev_perror ''write error: '']\<rparr>)
         else Some (s\<lparr>w_pc := W_chk_short\<rparr>)
     | W_chk_short \<Rightarrow>
         if scast (w_ret s) \<noteq> size_blk (blocks s ! unat (w_idx s))
         then Some (s\<lparr>w_pc := W_endchk,
                       events := events s @ [Ev_printf ''we didn't write everything!'']\<rparr>)
         else Some (s\<lparr>w_pc := W_endchk\<rparr>)
     | W_endchk \<Rightarrow>
         if end_blk (blocks s ! unat (w_idx s))
         then Some (s\<lparr>w_pc := W_done, events := events s @ [Ev_exit Writer]\<rparr>)
         else Some (s\<lparr>w_pc := W_lock2\<rparr>)
     | W_lock2 \<Rightarrow>
         if rw_mutex s = None then Some (s\<lparr>rw_mutex := Some Writer, w_pc := W_dec\<rparr>)
         else None
     | W_dec \<Rightarrow>
         Some (s\<lparr>numToWrite := numToWrite s - 1, w_pc := W_signal,
                 events := events s @ [Ev_release (w_idx s)]\<rparr>)
     | W_signal \<Rightarrow>
         Some (s\<lparr>r_pc := (if r_pc s = R_wait then R_relock else r_pc s), w_pc := W_unlock2,
                 events := events s @ [Ev_signal_read_cv]\<rparr>)
     | W_unlock2 \<Rightarrow> Some (s\<lparr>rw_mutex := None, w_pc := W_account\<rparr>)
     | W_account \<Rightarrow>
         Some (s\<lparr>wrote := wrote s + size_blk (blocks s ! unat (w_idx s)), w_pc := W_next\<rparr>)
     | W_next \<Rightarrow>
         if num_block cfg = 0 then None
         else Some (s\<lparr>w_idx := next_block_idx cfg (w_idx s), w_pc := W_lock1\<rparr>)
     | W_done \<Rightarrow> None)"

subsection \<open>main, the scheduler and the observer\<close>

definition main_init :: "config \<Rightarrow> environ \<Rightarrow> state" where
  "main_init cfg env =
     \<lparr>blocks = replicate (unat (num_block cfg)) \<lparr>size_blk = 0, end_blk = False\<rparr>,
      buf = map (malloc_fill env) [0 ..< unat (num_block cfg) * unat (block_size cfg)],
      numToWrite = 0, file_in = 0, file_out = [],
      read = 0, wrote = 0, fsize = of_nat (length (src_data env)),
      rwaits = 0, wwaits = 0,
      rw_mutex = None,
      r_pc = R_lock1, r_idx = 0, r_ret = 0,
      w_pc = W_lock1, w_idx = 0, w_ret = 0,
      events = []\<rparr>"

text \<open>
  The scheduler picks a thread, which takes its next step. A thread picked while it is
  inside \<open>pthread_cond_wait\<close> returns from the wait without a signal; a thread picked at a
  lock that is taken, or after its exit, has no step.
\<close>

fun step :: "config \<Rightarrow> environ \<Rightarrow> tid \<Rightarrow> state \<Rightarrow> state option" where
  "step cfg env Reader s = readerThread_step cfg env s"
| "step cfg env Writer s = writerThread_step cfg env s"

fun exec :: "config \<Rightarrow> environ \<Rightarrow> tid list \<Rightarrow> state \<Rightarrow> state option" where
  "exec cfg env [] s = Some s"
| "exec cfg env (t # ts) s =
     (case step cfg env t s of None \<Rightarrow> None | Some s' \<Rightarrow> exec cfg env ts s')"

inductive reachable :: "config \<Rightarrow> environ \<Rightarrow> state \<Rightarrow> bool" for cfg env where
  reach_init: "reachable cfg env (main_init cfg env)"
| reach_step: "reachable cfg env s \<Longrightarrow> step cfg env t s = Some s' \<Longrightarrow> reachable cfg env s'"

text \<open>
  \<open>main\<close> joins the two threads and then ends through \<open>pthread_exit(NULL)\<close>: the process
  has exit code 0 once both have exited, and none before.
\<close>

definition main_exit :: "state \<Rightarrow> int option" where
  "main_exit s = (if r_pc s = R_done \<and> w_pc s = W_done then Some 0 else None)"

text \<open>
  One tick of \<open>statusWriter\<close>: the two percentages and the two wait counts it prints. The
  divisions are by \<open>fsize\<close>, unguarded; \<open>None\<close> stands for the division by zero, which C
  leaves undefined.
\<close>

definition statusWriter_tick :: "state \<Rightarrow> (size_t \<times> size_t \<times> uint \<times> uint) option" where
  "statusWriter_tick s =
     (if fsize s = 0 then None
      else Some ((read s * 100) div fsize s, (wrote s * 100) div fsize s, rwaits s, wwaits s))"


subsection \<open>Concrete inputs\<close>

text \<open>A three-byte file copied through one slot of two bytes, and the empty file.\<close>

definition cfg_small :: config where
  "cfg_small = \<lparr>block_size = 2, num_block = 1\<rparr>"

definition env_small :: environ where
  "env_small = \<lparr>src_data = [1, 2, 3], src_bad_after = None, dst_room = None,
                 malloc_fill = (\<lambda>_. 0)\<rparr>"

definition env_empty :: environ where
  "env_empty = \<lparr>src_data = [], src_bad_after = None, dst_room = None,
                 malloc_fill = (\<lambda>_. 0)\<rparr>"

lemmas run_defs =
  main_init_def readerThread_step_def writerThread_step_def sys_read_def sys_write_def
  store_bytes_def load_bytes_def buf_idx_def next_block_idx_def set_end_def set_size_def

subsection \<open>The steps, case by case\<close>

text \<open>
  Every step of a thread is one of the following: the location it starts from, the
  condition under which it is taken, and the state it leads to.
\<close>

lemma reader_stepE [consumes 1, case_names lock1 check_full check_free relock unlock1
    read_err read_ok switch_err switch_eof switch_data err_end err_size size lock2
    inc signal unlock2 endchk_end endchk_more account "next" wakeup]:
  assumes "readerThread_step cfg env s = Some s'"
  obtains
    "r_pc s = R_lock1" "rw_mutex s = None" "s' = s\<lparr>rw_mutex := Some Reader, r_pc := R_check\<rparr>"
  | "r_pc s = R_check" "num_block cfg \<le> numToWrite s"
      "s' = s\<lparr>rwaits := rwaits s + 1, rw_mutex := None, r_pc := R_wait\<rparr>"
  | "r_pc s = R_check" "\<not> num_block cfg \<le> numToWrite s" "s' = s\<lparr>r_pc := R_unlock1\<rparr>"
  | "r_pc s = R_relock" "rw_mutex s = None"
      "s' = s\<lparr>rw_mutex := Some Reader, r_pc := R_unlock1\<rparr>"
  | "r_pc s = R_unlock1" "s' = s\<lparr>rw_mutex := None, r_pc := R_read\<rparr>"
  | "r_pc s = R_read" "sys_read env (file_in s) (unat (block_size cfg)) = None"
      "s' = s\<lparr>r_ret := - 1, r_pc := R_switch,
               events := events s @ [Ev_read (r_idx s) (- 1)]\<rparr>"
  | chunk where "r_pc s = R_read"
      "sys_read env (file_in s) (unat (block_size cfg)) = Some chunk"
      "s' = s\<lparr>buf := store_bytes (buf s) (unat (buf_idx cfg (r_idx s))) chunk,
               file_in := file_in s + length chunk,
               r_ret := of_nat (length chunk), r_pc := R_switch,
               events := events s @ [Ev_read (r_idx s) (of_nat (length chunk))]\<rparr>"
  | "r_pc s = R_switch" "r_ret s = - 1"
      "s' = s\<lparr>r_pc := R_err_end, events := events s @ [Ev_perror ''read error: '']\<rparr>"
  | "r_pc s = R_switch" "r_ret s \<noteq> - 1" "r_ret s = 0"
      "s' = s\<lparr>blocks := set_end (blocks s) (r_idx s) True, r_pc := R_size\<rparr>"
  | "r_pc s = R_switch" "r_ret s \<noteq> - 1" "r_ret s \<noteq> 0"
      "s' = s\<lparr>blocks := set_size (blocks s) (r_idx s) (scast (r_ret s)), r_pc := R_lock2\<rparr>"
  | "r_pc s = R_err_end"
      "s' = s\<lparr>blocks := set_end (blocks s) (r_idx s) True, r_pc := R_err_size\<rparr>"
  | "r_pc s = R_err_size"
      "s' = s\<lparr>blocks := set_size (blocks s) (r_idx s) 0, r_pc := R_done,
               events := events s @ [Ev_exit Reader]\<rparr>"
  | "r_pc s = R_size"
      "s' = s\<lparr>blocks := set_size (blocks s) (r_idx s) (scast (r_ret s)), r_pc := R_lock2\<rparr>"
  | "r_pc s = R_lock2" "rw_mutex s = None" "s' = s\<lparr>rw_mutex := Some Reader, r_pc := R_inc\<rparr>"
  | "r_pc s = R_inc"
      "s' = s\<lparr>numToWrite := numToWrite s + 1, r_pc := R_signal,
               events := events s @ [Ev_publish (r_idx s) (blocks s ! unat (r_idx s))]\<rparr>"
  | "r_pc s = R_signal"
      "s' = s\<lparr>w_pc := (if w_pc s = W_wait then W_relock else w_pc s), r_pc := R_unlock2,
               events := events s @ [Ev_signal_write_cv]\<rparr>"
  | "r_pc s = R_unlock2" "s' = s\<lparr>rw_mutex := None, r_pc := R_endchk\<rparr>"
  | "r_pc s = R_endchk" "end_blk (blocks s ! unat (r_idx s))"
      "s' = s\<lparr>r_pc := R_done, events := events s @ [Ev_exit Reader]\<rparr>"
  | "r_pc s = R_endchk" "\<not> end_blk (blocks s ! unat (r_idx s))" "s' = s\<lparr>r_pc := R_account\<rparr>"
  | "r_pc s = R_account"
      "s' = s\<lparr>read := read s + size_blk (blocks s ! unat (r_idx s)), r_pc := R_next\<rparr>"
  | "r_pc s = R_next" "num_block cfg \<noteq> 0"
      "s' = s\<lparr>r_idx := next_block_idx cfg (r_idx s), r_pc := R_lock1\<rparr>"
  | "r_pc s = R_wait"
      "s' = s\<lparr>r_pc := R_relock, events := events s @ [Ev_wakeup Reader]\<rparr>"
proof (cases "r_pc s")
  case R_lock1
  with assms that(1) show ?thesis
    by (simp add: readerThread_step_def split: if_splits)
next
  case R_check
  with assms that(2,3) show ?thesis
    by (simp add: readerThread_step_def split: if_splits)
next
  case R_wait
  with assms that(22) show ?thesis
    by (simp add: readerThread_step_def)
next
  case R_relock
  with assms that(4) show ?thesis
    by (simp add: readerThread_step_def split: if_splits)
next
  case R_unlock1
  with assms that(5) show ?thesis
    by (simp add: readerThread_step_def)
next
  case R_read
  with assms that(6,7) show ?thesis
    by (simp add: readerThread_step_def split: option.splits)
next
  case R_switch
  with assms that(8,9,10) show ?thesis
    by (simp add: readerThread_step_def split: if_splits)
next
  case R_err_end
  with assms that(11) show ?thesis
    by (simp add: readerThread_step_def)
next
  case R_err_size
  with assms that(12) show ?thesis
    by (simp add: readerThread_step_def)
next
  case R_size
  with assms that(13) show ?thesis
    by (simp add: readerThread_step_def)
next
  case R_lock2
  with assms that(14) show ?thesis
    by (simp add: readerThread_step_def split: if_splits)
next
  case R_inc
  with assms that(15) show ?thesis
    by (simp add: readerThread_step_def)
next
  case R_signal
  with assms that(16) show ?thesis
    by (simp add: readerThread_step_def)
next
  case R_unlock2
  with assms that(17) show ?thesis
    by (simp add: readerThread_step_def)
next
  case R_endchk
  with assms that(18,19) show ?thesis
    by (simp add: readerThread_step_def split: if_splits)
next
  case R_account
  with assms that(20) show ?thesis
    by (simp add: readerThread_step_def)
next
  case R_next
  with assms that(21) show ?thesis
    by (simp add: readerThread_step_def split: if_splits)
next
  case R_done
  with assms show ?thesis
    by (simp add: readerThread_step_def)
qed

lemma writer_stepE [consumes 1, case_names lock1 check_empty check_avail relock unlock1
    write_err write_ok chk_err_yes chk_err_no chk_short_yes chk_short_no
    endchk_end endchk_more lock2 dec signal unlock2 account "next" wakeup]:
  assumes "writerThread_step cfg env s = Some s'"
  obtains
    "w_pc s = W_lock1" "rw_mutex s = None" "s' = s\<lparr>rw_mutex := Some Writer, w_pc := W_check\<rparr>"
  | "w_pc s = W_check" "numToWrite s = 0"
      "s' = s\<lparr>wwaits := wwaits s + 1, rw_mutex := None, w_pc := W_wait\<rparr>"
  | "w_pc s = W_check" "numToWrite s \<noteq> 0" "s' = s\<lparr>w_pc := W_unlock1\<rparr>"
  | "w_pc s = W_relock" "rw_mutex s = None"
      "s' = s\<lparr>rw_mutex := Some Writer, w_pc := W_unlock1\<rparr>"
  | "w_pc s = W_unlock1" "s' = s\<lparr>rw_mutex := None, w_pc := W_write\<rparr>"
  | "w_pc s = W_write"
      "sys_write env (length (file_out s))
         (load_bytes (buf s) (unat (buf_idx cfg (w_idx s)))
            (unat (size_blk (blocks s ! unat (w_idx s))))) = None"
      "s' = s\<lparr>w_ret := - 1, w_pc := W_chk_err,
               events := events s @
                 [Ev_write (w_idx s) (size_blk (blocks s ! unat (w_idx s))) (- 1)]\<rparr>"
  | sent where "w_pc s = W_write"
      "sys_write env (length (file_out s))
         (load_bytes (buf s) (unat (buf_idx cfg (w_idx s)))
            (unat (size_blk (blocks s ! unat (w_idx s))))) = Some sent"
      "s' = s\<lparr>file_out := file_out s @ sent,
               w_ret := of_nat (length sent), w_pc := W_chk_err,
               events := events s @
                 [Ev_write (w_idx s) (size_blk (blocks s ! unat (w_idx s)))
                    (of_nat (length sent))]\<rparr>"
  | "w_pc s = W_chk_err" "w_ret s = - 1"
      "s' = s\<lparr>w_pc := W_chk_short, events := events s @ [Ev_perror ''write error: '']\<rparr>"
  | "w_pc s = W_chk_err" "w_ret s \<noteq> - 1" "s' = s\<lparr>w_pc := W_chk_short\<rparr>"
  | "w_pc s = W_chk_short" "scast (w_ret s) \<noteq> size_blk (blocks s ! unat (w_idx s))"
      "s' = s\<lparr>w_pc := W_endchk,
               events := events s @ [Ev_printf ''we didn't write everything!'']\<rparr>"
  | "w_pc s = W_chk_short" "scast (w_ret s) = size_blk (blocks s ! unat (w_idx s))"
      "s' = s\<lparr>w_pc := W_endchk\<rparr>"
  | "w_pc s = W_endchk" "end_blk (blocks s ! unat (w_idx s))"
      "s' = s\<lparr>w_pc := W_done, events := events s @ [Ev_exit Writer]\<rparr>"
  | "w_pc s = W_endchk" "\<not> end_blk (blocks s ! unat (w_idx s))" "s' = s\<lparr>w_pc := W_lock2\<rparr>"
  | "w_pc s = W_lock2" "rw_mutex s = None" "s' = s\<lparr>rw_mutex := Some Writer, w_pc := W_dec\<rparr>"
  | "w_pc s = W_dec"
      "s' = s\<lparr>numToWrite := numToWrite s - 1, w_pc := W_signal,
               events := events s @ [Ev_release (w_idx s)]\<rparr>"
  | "w_pc s = W_signal"
      "s' = s\<lparr>r_pc := (if r_pc s = R_wait then R_relock else r_pc s), w_pc := W_unlock2,
               events := events s @ [Ev_signal_read_cv]\<rparr>"
  | "w_pc s = W_unlock2" "s' = s\<lparr>rw_mutex := None, w_pc := W_account\<rparr>"
  | "w_pc s = W_account"
      "s' = s\<lparr>wrote := wrote s + size_blk (blocks s ! unat (w_idx s)), w_pc := W_next\<rparr>"
  | "w_pc s = W_next" "num_block cfg \<noteq> 0"
      "s' = s\<lparr>w_idx := next_block_idx cfg (w_idx s), w_pc := W_lock1\<rparr>"
  | "w_pc s = W_wait"
      "s' = s\<lparr>w_pc := W_relock, events := events s @ [Ev_wakeup Writer]\<rparr>"
proof (cases "w_pc s")
  case W_lock1
  with assms that(1) show ?thesis
    by (simp add: writerThread_step_def split: if_splits)
next
  case W_check
  with assms that(2,3) show ?thesis
    by (simp add: writerThread_step_def split: if_splits)
next
  case W_wait
  with assms that(20) show ?thesis
    by (simp add: writerThread_step_def)
next
  case W_relock
  with assms that(4) show ?thesis
    by (simp add: writerThread_step_def split: if_splits)
next
  case W_unlock1
  with assms that(5) show ?thesis
    by (simp add: writerThread_step_def)
next
  case W_write
  with assms that(6,7) show ?thesis
    by (simp add: writerThread_step_def Let_def split: option.splits)
next
  case W_chk_err
  with assms that(8,9) show ?thesis
    by (simp add: writerThread_step_def split: if_splits)
next
  case W_chk_short
  with assms that(10,11) show ?thesis
    by (simp add: writerThread_step_def split: if_splits)
next
  case W_endchk
  with assms that(12,13) show ?thesis
    by (simp add: writerThread_step_def split: if_splits)
next
  case W_lock2
  with assms that(14) show ?thesis
    by (simp add: writerThread_step_def split: if_splits)
next
  case W_dec
  with assms that(15) show ?thesis
    by (simp add: writerThread_step_def)
next
  case W_signal
  with assms that(16) show ?thesis
    by (simp add: writerThread_step_def)
next
  case W_unlock2
  with assms that(17) show ?thesis
    by (simp add: writerThread_step_def)
next
  case W_account
  with assms that(18) show ?thesis
    by (simp add: writerThread_step_def)
next
  case W_next
  with assms that(19) show ?thesis
    by (simp add: writerThread_step_def split: if_splits)
next
  case W_done
  with assms show ?thesis
    by (simp add: writerThread_step_def)
qed

subsection \<open>Steps that need no unsignalled return\<close>

text \<open>
  The steps of each thread other than a return from \<open>pthread_cond_wait\<close> that no signal
  caused: what the threads can do when every wait lasts until its signal.
\<close>

definition reader_signalled :: "config \<Rightarrow> environ \<Rightarrow> state \<Rightarrow> state option" where
  "reader_signalled cfg env s =
     (if r_pc s = R_wait then None else readerThread_step cfg env s)"

definition writer_signalled :: "config \<Rightarrow> environ \<Rightarrow> state \<Rightarrow> state option" where
  "writer_signalled cfg env s =
     (if w_pc s = W_wait then None else writerThread_step cfg env s)"

lemma reader_signalledE [consumes 1, case_names lock1 check_full check_free relock unlock1
    read_err read_ok switch_err switch_eof switch_data err_end err_size size lock2
    inc signal unlock2 endchk_end endchk_more account "next"]:
  assumes "reader_signalled cfg env s = Some s'"
  obtains
    "r_pc s = R_lock1" "rw_mutex s = None" "s' = s\<lparr>rw_mutex := Some Reader, r_pc := R_check\<rparr>"
  | "r_pc s = R_check" "num_block cfg \<le> numToWrite s"
      "s' = s\<lparr>rwaits := rwaits s + 1, rw_mutex := None, r_pc := R_wait\<rparr>"
  | "r_pc s = R_check" "\<not> num_block cfg \<le> numToWrite s" "s' = s\<lparr>r_pc := R_unlock1\<rparr>"
  | "r_pc s = R_relock" "rw_mutex s = None"
      "s' = s\<lparr>rw_mutex := Some Reader, r_pc := R_unlock1\<rparr>"
  | "r_pc s = R_unlock1" "s' = s\<lparr>rw_mutex := None, r_pc := R_read\<rparr>"
  | "r_pc s = R_read" "sys_read env (file_in s) (unat (block_size cfg)) = None"
      "s' = s\<lparr>r_ret := - 1, r_pc := R_switch,
               events := events s @ [Ev_read (r_idx s) (- 1)]\<rparr>"
  | chunk where "r_pc s = R_read"
      "sys_read env (file_in s) (unat (block_size cfg)) = Some chunk"
      "s' = s\<lparr>buf := store_bytes (buf s) (unat (buf_idx cfg (r_idx s))) chunk,
               file_in := file_in s + length chunk,
               r_ret := of_nat (length chunk), r_pc := R_switch,
               events := events s @ [Ev_read (r_idx s) (of_nat (length chunk))]\<rparr>"
  | "r_pc s = R_switch" "r_ret s = - 1"
      "s' = s\<lparr>r_pc := R_err_end, events := events s @ [Ev_perror ''read error: '']\<rparr>"
  | "r_pc s = R_switch" "r_ret s \<noteq> - 1" "r_ret s = 0"
      "s' = s\<lparr>blocks := set_end (blocks s) (r_idx s) True, r_pc := R_size\<rparr>"
  | "r_pc s = R_switch" "r_ret s \<noteq> - 1" "r_ret s \<noteq> 0"
      "s' = s\<lparr>blocks := set_size (blocks s) (r_idx s) (scast (r_ret s)), r_pc := R_lock2\<rparr>"
  | "r_pc s = R_err_end"
      "s' = s\<lparr>blocks := set_end (blocks s) (r_idx s) True, r_pc := R_err_size\<rparr>"
  | "r_pc s = R_err_size"
      "s' = s\<lparr>blocks := set_size (blocks s) (r_idx s) 0, r_pc := R_done,
               events := events s @ [Ev_exit Reader]\<rparr>"
  | "r_pc s = R_size"
      "s' = s\<lparr>blocks := set_size (blocks s) (r_idx s) (scast (r_ret s)), r_pc := R_lock2\<rparr>"
  | "r_pc s = R_lock2" "rw_mutex s = None" "s' = s\<lparr>rw_mutex := Some Reader, r_pc := R_inc\<rparr>"
  | "r_pc s = R_inc"
      "s' = s\<lparr>numToWrite := numToWrite s + 1, r_pc := R_signal,
               events := events s @ [Ev_publish (r_idx s) (blocks s ! unat (r_idx s))]\<rparr>"
  | "r_pc s = R_signal"
      "s' = s\<lparr>w_pc := (if w_pc s = W_wait then W_relock else w_pc s), r_pc := R_unlock2,
               events := events s @ [Ev_signal_write_cv]\<rparr>"
  | "r_pc s = R_unlock2" "s' = s\<lparr>rw_mutex := None, r_pc := R_endchk\<rparr>"
  | "r_pc s = R_endchk" "end_blk (blocks s ! unat (r_idx s))"
      "s' = s\<lparr>r_pc := R_done, events := events s @ [Ev_exit Reader]\<rparr>"
  | "r_pc s = R_endchk" "\<not> end_blk (blocks s ! unat (r_idx s))" "s' = s\<lparr>r_pc := R_account\<rparr>"
  | "r_pc s = R_account"
      "s' = s\<lparr>read := read s + size_blk (blocks s ! unat (r_idx s)), r_pc := R_next\<rparr>"
  | "r_pc s = R_next" "num_block cfg \<noteq> 0"
      "s' = s\<lparr>r_idx := next_block_idx cfg (r_idx s), r_pc := R_lock1\<rparr>"
proof -
  from assms have st: "readerThread_step cfg env s = Some s'" and nw: "r_pc s \<noteq> R_wait"
    by (simp_all add: reader_signalled_def split: if_splits)
  from st show ?thesis
  proof (cases rule: reader_stepE)
    case lock1
    then show ?thesis by (rule that(1))
  next
    case check_full
    then show ?thesis by (rule that(2))
  next
    case check_free
    then show ?thesis by (rule that(3))
  next
    case relock
    then show ?thesis by (rule that(4))
  next
    case unlock1
    then show ?thesis by (rule that(5))
  next
    case read_err
    then show ?thesis by (rule that(6))
  next
    case read_ok
    then show ?thesis by (rule that(7))
  next
    case switch_err
    then show ?thesis by (rule that(8))
  next
    case switch_eof
    then show ?thesis by (rule that(9))
  next
    case switch_data
    then show ?thesis by (rule that(10))
  next
    case err_end
    then show ?thesis by (rule that(11))
  next
    case err_size
    then show ?thesis by (rule that(12))
  next
    case size
    then show ?thesis by (rule that(13))
  next
    case lock2
    then show ?thesis by (rule that(14))
  next
    case inc
    then show ?thesis by (rule that(15))
  next
    case signal
    then show ?thesis by (rule that(16))
  next
    case unlock2
    then show ?thesis by (rule that(17))
  next
    case endchk_end
    then show ?thesis by (rule that(18))
  next
    case endchk_more
    then show ?thesis by (rule that(19))
  next
    case account
    then show ?thesis by (rule that(20))
  next
    case "next"
    then show ?thesis by (rule that(21))
  next
    case wakeup
    with nw show ?thesis by simp
  qed
qed

lemma writer_signalledE [consumes 1, case_names lock1 check_empty check_avail relock unlock1
    write_err write_ok chk_err_yes chk_err_no chk_short_yes chk_short_no
    endchk_end endchk_more lock2 dec signal unlock2 account "next"]:
  assumes "writer_signalled cfg env s = Some s'"
  obtains
    "w_pc s = W_lock1" "rw_mutex s = None" "s' = s\<lparr>rw_mutex := Some Writer, w_pc := W_check\<rparr>"
  | "w_pc s = W_check" "numToWrite s = 0"
      "s' = s\<lparr>wwaits := wwaits s + 1, rw_mutex := None, w_pc := W_wait\<rparr>"
  | "w_pc s = W_check" "numToWrite s \<noteq> 0" "s' = s\<lparr>w_pc := W_unlock1\<rparr>"
  | "w_pc s = W_relock" "rw_mutex s = None"
      "s' = s\<lparr>rw_mutex := Some Writer, w_pc := W_unlock1\<rparr>"
  | "w_pc s = W_unlock1" "s' = s\<lparr>rw_mutex := None, w_pc := W_write\<rparr>"
  | "w_pc s = W_write"
      "sys_write env (length (file_out s))
         (load_bytes (buf s) (unat (buf_idx cfg (w_idx s)))
            (unat (size_blk (blocks s ! unat (w_idx s))))) = None"
      "s' = s\<lparr>w_ret := - 1, w_pc := W_chk_err,
               events := events s @
                 [Ev_write (w_idx s) (size_blk (blocks s ! unat (w_idx s))) (- 1)]\<rparr>"
  | sent where "w_pc s = W_write"
      "sys_write env (length (file_out s))
         (load_bytes (buf s) (unat (buf_idx cfg (w_idx s)))
            (unat (size_blk (blocks s ! unat (w_idx s))))) = Some sent"
      "s' = s\<lparr>file_out := file_out s @ sent,
               w_ret := of_nat (length sent), w_pc := W_chk_err,
               events := events s @
                 [Ev_write (w_idx s) (size_blk (blocks s ! unat (w_idx s)))
                    (of_nat (length sent))]\<rparr>"
  | "w_pc s = W_chk_err" "w_ret s = - 1"
      "s' = s\<lparr>w_pc := W_chk_short, events := events s @ [Ev_perror ''write error: '']\<rparr>"
  | "w_pc s = W_chk_err" "w_ret s \<noteq> - 1" "s' = s\<lparr>w_pc := W_chk_short\<rparr>"
  | "w_pc s = W_chk_short" "scast (w_ret s) \<noteq> size_blk (blocks s ! unat (w_idx s))"
      "s' = s\<lparr>w_pc := W_endchk,
               events := events s @ [Ev_printf ''we didn't write everything!'']\<rparr>"
  | "w_pc s = W_chk_short" "scast (w_ret s) = size_blk (blocks s ! unat (w_idx s))"
      "s' = s\<lparr>w_pc := W_endchk\<rparr>"
  | "w_pc s = W_endchk" "end_blk (blocks s ! unat (w_idx s))"
      "s' = s\<lparr>w_pc := W_done, events := events s @ [Ev_exit Writer]\<rparr>"
  | "w_pc s = W_endchk" "\<not> end_blk (blocks s ! unat (w_idx s))" "s' = s\<lparr>w_pc := W_lock2\<rparr>"
  | "w_pc s = W_lock2" "rw_mutex s = None" "s' = s\<lparr>rw_mutex := Some Writer, w_pc := W_dec\<rparr>"
  | "w_pc s = W_dec"
      "s' = s\<lparr>numToWrite := numToWrite s - 1, w_pc := W_signal,
               events := events s @ [Ev_release (w_idx s)]\<rparr>"
  | "w_pc s = W_signal"
      "s' = s\<lparr>r_pc := (if r_pc s = R_wait then R_relock else r_pc s), w_pc := W_unlock2,
               events := events s @ [Ev_signal_read_cv]\<rparr>"
  | "w_pc s = W_unlock2" "s' = s\<lparr>rw_mutex := None, w_pc := W_account\<rparr>"
  | "w_pc s = W_account"
      "s' = s\<lparr>wrote := wrote s + size_blk (blocks s ! unat (w_idx s)), w_pc := W_next\<rparr>"
  | "w_pc s = W_next" "num_block cfg \<noteq> 0"
      "s' = s\<lparr>w_idx := next_block_idx cfg (w_idx s), w_pc := W_lock1\<rparr>"
proof -
  from assms have st: "writerThread_step cfg env s = Some s'" and nw: "w_pc s \<noteq> W_wait"
    by (simp_all add: writer_signalled_def split: if_splits)
  from st show ?thesis
  proof (cases rule: writer_stepE)
    case lock1
    then show ?thesis by (rule that(1))
  next
    case check_empty
    then show ?thesis by (rule that(2))
  next
    case check_avail
    then show ?thesis by (rule that(3))
  next
    case relock
    then show ?thesis by (rule that(4))
  next
    case unlock1
    then show ?thesis by (rule that(5))
  next
    case write_err
    then show ?thesis by (rule that(6))
  next
    case write_ok
    then show ?thesis by (rule that(7))
  next
    case chk_err_yes
    then show ?thesis by (rule that(8))
  next
    case chk_err_no
    then show ?thesis by (rule that(9))
  next
    case chk_short_yes
    then show ?thesis by (rule that(10))
  next
    case chk_short_no
    then show ?thesis by (rule that(11))
  next
    case endchk_end
    then show ?thesis by (rule that(12))
  next
    case endchk_more
    then show ?thesis by (rule that(13))
  next
    case lock2
    then show ?thesis by (rule that(14))
  next
    case dec
    then show ?thesis by (rule that(15))
  next
    case signal
    then show ?thesis by (rule that(16))
  next
    case unlock2
    then show ?thesis by (rule that(17))
  next
    case account
    then show ?thesis by (rule that(18))
  next
    case "next"
    then show ?thesis by (rule that(19))
  next
    case wakeup
    with nw show ?thesis by simp
  qed
qed

section \<open>The hand-over counter\<close>

text \<open>
  This section and the five that follow are about runs in which every wait lasts until
  its signal. Their invariants are kept by the steps of \<open>reader_signalled\<close> and
  \<open>writer_signalled\<close>, and so hold in every state reached with no \<open>Ev_wakeup\<close> in the log
  (\<open>reachable_inv\<close>). After an unsignalled return they need not hold: the runs
  \<open>sched_reader_wakeup\<close> and \<open>sched_writer_wakeup\<close> further down leave the counter
  outside its bounds.
\<close>

subsection \<open>Counting the log\<close>

text \<open>The slots handed to the writer, in order, each with the metadata it was published with.\<close>

fun pub_of :: "event \<Rightarrow> (uint \<times> block) list" where
  "pub_of (Ev_publish i b) = [(i, b)]"
| "pub_of _ = []"

definition pubs :: "event list \<Rightarrow> (uint \<times> block) list" where
  "pubs es = concat (map pub_of es)"

definition n_pub :: "event list \<Rightarrow> nat" where
  "n_pub es = length (pubs es)"

fun is_release :: "event \<Rightarrow> bool" where
  "is_release (Ev_release i) = True"
| "is_release _ = False"

definition n_rel :: "event list \<Rightarrow> nat" where
  "n_rel es = length (filter is_release es)"

text \<open>The returns from a wait that no signal caused.\<close>

fun is_wakeup :: "event \<Rightarrow> bool" where
  "is_wakeup (Ev_wakeup t) = True"
| "is_wakeup _ = False"

definition n_wake :: "event list \<Rightarrow> nat" where
  "n_wake es = length (filter is_wakeup es)"

lemma n_wake_Nil [simp]: "n_wake [] = 0"
  by (simp add: n_wake_def)

lemma n_wake_snoc [simp]: "n_wake (es @ [e]) = n_wake es + (if is_wakeup e then 1 else 0)"
  by (simp add: n_wake_def)

lemma pubs_Nil [simp]: "pubs [] = []"
  by (simp add: pubs_def)

lemma pubs_snoc [simp]: "pubs (es @ [e]) = pubs es @ pub_of e"
  by (simp add: pubs_def)

lemma n_pub_Nil [simp]: "n_pub [] = 0"
  by (simp add: n_pub_def)

lemma n_pub_snoc [simp]: "n_pub (es @ [e]) = n_pub es + length (pub_of e)"
  by (simp add: n_pub_def)

lemma n_rel_Nil [simp]: "n_rel [] = 0"
  by (simp add: n_rel_def)

lemma n_rel_snoc [simp]: "n_rel (es @ [e]) = n_rel es + (if is_release e then 1 else 0)"
  by (simp add: n_rel_def)

subsection \<open>Who holds the mutex\<close>

fun r_holds :: "rloc \<Rightarrow> bool" where
  "r_holds R_check = True"
| "r_holds R_unlock1 = True"
| "r_holds R_inc = True"
| "r_holds R_signal = True"
| "r_holds R_unlock2 = True"
| "r_holds _ = False"

fun w_holds :: "wloc \<Rightarrow> bool" where
  "w_holds W_check = True"
| "w_holds W_unlock1 = True"
| "w_holds W_dec = True"
| "w_holds W_signal = True"
| "w_holds W_unlock2 = True"
| "w_holds _ = False"

definition mutex_inv :: "state \<Rightarrow> bool" where
  "mutex_inv s =
     ((rw_mutex s = Some Reader) = r_holds (r_pc s) \<and>
      (rw_mutex s = Some Writer) = w_holds (w_pc s))"

text \<open>
  Between its check of the counter and its increment the reader lays claim to one free
  slot (\<open>r_claim\<close>); between its check and its decrement the writer lays claim to one
  filled slot (\<open>w_claim\<close>). Right after its own update, still inside the critical
  section, each thread knows the counter's new value (\<open>r_gave\<close>, \<open>w_gave\<close>).
\<close>

fun r_claim :: "rloc \<Rightarrow> nat" where
  "r_claim R_relock = 1"
| "r_claim R_unlock1 = 1"
| "r_claim R_read = 1"
| "r_claim R_switch = 1"
| "r_claim R_err_end = 1"
| "r_claim R_err_size = 1"
| "r_claim R_size = 1"
| "r_claim R_lock2 = 1"
| "r_claim R_inc = 1"
| "r_claim _ = 0"

fun w_claim :: "wloc \<Rightarrow> nat" where
  "w_claim W_relock = 1"
| "w_claim W_unlock1 = 1"
| "w_claim W_write = 1"
| "w_claim W_chk_err = 1"
| "w_claim W_chk_short = 1"
| "w_claim W_endchk = 1"
| "w_claim W_lock2 = 1"
| "w_claim W_dec = 1"
| "w_claim _ = 0"

fun r_gave :: "rloc \<Rightarrow> nat" where
  "r_gave R_signal = 1"
| "r_gave _ = 0"

fun w_gave :: "wloc \<Rightarrow> nat" where
  "w_gave W_signal = 1"
| "w_gave _ = 0"

definition counter_inv :: "config \<Rightarrow> state \<Rightarrow> bool" where
  "counter_inv cfg s =
     (unat (numToWrite s) + n_rel (events s) = n_pub (events s)
      \<and> unat (numToWrite s) + r_claim (r_pc s) \<le> unat (num_block cfg)
      \<and> unat (numToWrite s) + w_gave (w_pc s) \<le> unat (num_block cfg)
      \<and> w_claim (w_pc s) \<le> unat (numToWrite s)
      \<and> r_gave (r_pc s) \<le> unat (numToWrite s))"

subsection \<open>Runs and reachable states\<close>

lemma exec_append:
  "exec cfg env (xs @ ys) s =
     (case exec cfg env xs s of None \<Rightarrow> None | Some s' \<Rightarrow> exec cfg env ys s')"
  by (induction xs arbitrary: s) (auto split: option.splits)

lemma exec_reachable:
  "reachable cfg env s \<Longrightarrow> exec cfg env sched s = Some s' \<Longrightarrow> reachable cfg env s'"
proof (induction sched arbitrary: s)
  case Nil
  then show ?case by simp
next
  case (Cons t ts)
  from Cons.prems(2) obtain s1 where
    s1: "step cfg env t s = Some s1" and rest: "exec cfg env ts s1 = Some s'"
    by (auto split: option.splits)
  from Cons.prems(1) s1 have r1: "reachable cfg env s1" by (rule reach_step)
  from r1 rest show ?case by (rule Cons.IH)
qed

lemma run_reachable:
  "exec cfg env sched (main_init cfg env) = Some s \<Longrightarrow> reachable cfg env s"
  using exec_reachable [OF reach_init] .

subsection \<open>Word arithmetic of the counter\<close>

lemma unat_inc32: "unat (n :: uint) < unat (m :: uint) \<Longrightarrow> unat (n + 1) = unat n + 1"
  using unsigned_less [of m, where 'a = nat] by (simp add: unat_word_ariths)

lemma unat_dec32: "1 \<le> unat (n :: uint) \<Longrightarrow> unat (n - 1) = unat n - 1"
  by (metis One_nat_def not_one_le_zero unat_0 unat_minus_one)

lemma word_nz_unat: "(n :: uint) \<noteq> 0 \<Longrightarrow> Suc 0 \<le> unat n"
  by (simp add: Suc_le_eq unat_gt_0)

lemma r_gave_holds [simp]: "\<not> r_holds r \<Longrightarrow> r_gave r = 0"
  by (cases r) simp_all

lemma w_gave_holds [simp]: "\<not> w_holds w \<Longrightarrow> w_gave w = 0"
  by (cases w) simp_all

subsection \<open>The invariants are kept by every step but an unsignalled return\<close>

lemma mutex_inv_init: "mutex_inv (main_init cfg env)"
  by (simp add: mutex_inv_def main_init_def)

lemma mutex_inv_reader:
  "mutex_inv s \<Longrightarrow> reader_signalled cfg env s = Some s' \<Longrightarrow> mutex_inv s'"
  by (erule reader_signalledE; clarsimp simp: mutex_inv_def)

lemma mutex_inv_writer:
  "mutex_inv s \<Longrightarrow> writer_signalled cfg env s = Some s' \<Longrightarrow> mutex_inv s'"
  by (erule writer_signalledE; clarsimp simp: mutex_inv_def)

lemma counter_inv_init: "counter_inv cfg (main_init cfg env)"
  by (simp add: counter_inv_def main_init_def)

lemma counter_inv_reader:
  "mutex_inv s \<Longrightarrow> counter_inv cfg s \<Longrightarrow> reader_signalled cfg env s = Some s'
   \<Longrightarrow> counter_inv cfg s'"
  by (erule reader_signalledE;
      clarsimp simp: mutex_inv_def counter_inv_def word_le_nat_alt
                     unat_inc32 [where m = "num_block cfg"])

lemma counter_inv_writer:
  "mutex_inv s \<Longrightarrow> counter_inv cfg s \<Longrightarrow> writer_signalled cfg env s = Some s'
   \<Longrightarrow> counter_inv cfg s'"
  by (erule writer_signalledE;
      clarsimp simp: mutex_inv_def counter_inv_def unat_dec32;
      (auto dest: word_nz_unat)?)

section \<open>The status observer\<close>

lemma fsize_reader:
  "readerThread_step cfg env s = Some s' \<Longrightarrow> fsize s' = fsize s"
  by (erule reader_stepE; simp)

lemma fsize_writer:
  "writerThread_step cfg env s = Some s' \<Longrightarrow> fsize s' = fsize s"
  by (erule writer_stepE; simp)

lemma fsize_reachable:
  "reachable cfg env s \<Longrightarrow> fsize s = of_nat (length (src_data env))"
proof (induction rule: reachable.induct)
  case reach_init
  show ?case by (simp add: main_init_def)
next
  case (reach_step s t s')
  then show ?case by (cases t) (auto dest: fsize_reader fsize_writer)
qed

text \<open>
  Claim C10. \<open>statusWriter\<close> divides \<open>read * 100\<close> and \<open>wrote * 100\<close> by \<open>fsize\<close> with no
  guard. Whenever it ticks (in any reachable state), the division is defined exactly when
  the input file is not empty; for the empty file the divisor is 0 already at the first
  tick, in \<open>main\<close>'s initial state.
\<close>

theorem status_needs_positive_length:
  assumes "reachable cfg env s" and "length (src_data env) < 2 ^ 64"
  shows "(statusWriter_tick s \<noteq> None) = (0 < length (src_data env))
         \<and> (src_data env = [] \<longrightarrow> statusWriter_tick (main_init cfg env) = None)"
proof -
  have "unat (of_nat (length (src_data env)) :: size_t) = length (src_data env)"
    using assms(2) by (simp add: unat_of_nat)
  then have "(of_nat (length (src_data env)) :: size_t) = 0 \<longleftrightarrow> length (src_data env) = 0"
    by (auto simp: unat_eq_zero [symmetric])
  with fsize_reachable [OF assms(1)]
  show ?thesis
    by (simp add: statusWriter_tick_def main_init_def)
qed

theorem status_needs_positive_length_witness:
  "reachable cfg_small env_empty (main_init cfg_small env_empty)
   \<and> length (src_data env_empty) < 2 ^ 64
   \<and> statusWriter_tick (main_init cfg_small env_empty) = None"
  using status_needs_positive_length [OF reach_init, of env_empty cfg_small]
  by (simp add: env_empty_def reach_init)

section \<open>The slot cursors\<close>

fun r_back :: "rloc \<Rightarrow> cint \<Rightarrow> nat" where
  "r_back R_signal r = 1"
| "r_back R_unlock2 r = 1"
| "r_back R_endchk r = 1"
| "r_back R_account r = 1"
| "r_back R_next r = 1"
| "r_back R_done r = (if r = - 1 then 0 else 1)"
| "r_back _ r = 0"

fun w_back :: "wloc \<Rightarrow> nat" where
  "w_back W_signal = 1"
| "w_back W_unlock2 = 1"
| "w_back W_account = 1"
| "w_back W_next = 1"
| "w_back _ = 0"

definition r_cur :: "state \<Rightarrow> nat" where
  "r_cur s = n_pub (events s) - r_back (r_pc s) (r_ret s)"

definition w_cur :: "state \<Rightarrow> nat" where
  "w_cur s = n_rel (events s) - w_back (w_pc s)"

fun ret_ok :: "rloc \<Rightarrow> cint \<Rightarrow> bool" where
  "ret_ok R_err_end r = (r = - 1)"
| "ret_ok R_err_size r = (r = - 1)"
| "ret_ok R_size r = (r = 0)"
| "ret_ok R_lock2 r = (r \<noteq> - 1)"
| "ret_ok R_inc r = (r \<noteq> - 1)"
| "ret_ok R_signal r = (r \<noteq> - 1)"
| "ret_ok R_unlock2 r = (r \<noteq> - 1)"
| "ret_ok R_endchk r = (r \<noteq> - 1)"
| "ret_ok R_account r = (r \<noteq> - 1)"
| "ret_ok R_next r = (r \<noteq> - 1)"
| "ret_ok _ r = True"

definition index_inv :: "config \<Rightarrow> state \<Rightarrow> bool" where
  "index_inv cfg s =
     (length (blocks s) = unat (num_block cfg)
      \<and> length (buf s) = unat (num_block cfg) * unat (block_size cfg)
      \<and> ret_ok (r_pc s) (r_ret s)
      \<and> r_back (r_pc s) (r_ret s) \<le> n_pub (events s)
      \<and> w_back (w_pc s) \<le> n_rel (events s)
      \<and> unat (r_idx s) = r_cur s mod unat (num_block cfg)
      \<and> unat (w_idx s) = w_cur s mod unat (num_block cfg)
      \<and> (0 < n_pub (events s) \<longrightarrow> 0 < unat (num_block cfg)))"

lemma unat_mult_le: "unat (a * b :: uint) \<le> unat a * unat b"
  by (simp add: unat_word_ariths)

lemma sys_read_length: "sys_read env pos c = Some chunk \<Longrightarrow> length chunk \<le> c"
  by (auto simp: sys_read_def split: option.splits if_splits)

lemma slot_in_buffer:
  assumes "i < n" "off \<le> i * b" "len \<le> b"
  shows "off + len \<le> n * (b :: nat)"
proof -
  have "off + len \<le> Suc i * b" using assms(2,3) by simp
  also have "\<dots> \<le> n * b" using assms(1) by (intro mult_le_mono1) simp
  finally show ?thesis .
qed

lemma length_store_bytes:
  "off + length bs \<le> length m \<Longrightarrow> length (store_bytes m off bs) = length m"
  by (simp add: store_bytes_def)

lemma next_block_idx_unat:
  assumes "unat idx < unat (num_block cfg)"
  shows "unat (next_block_idx cfg idx) = Suc (unat idx) mod unat (num_block cfg)"
  using assms by (simp add: next_block_idx_def unat_mod unat_inc32 [where m = "num_block cfg"])

lemma length_set_end [simp]: "length (set_end bl i b) = length bl"
  by (simp add: set_end_def)

lemma length_set_size [simp]: "length (set_size bl i n) = length bl"
  by (simp add: set_size_def)

lemma index_inv_init: "index_inv cfg (main_init cfg env)"
  by (simp add: index_inv_def main_init_def r_cur_def w_cur_def)

lemma index_inv_reader:
  assumes "counter_inv cfg s" "index_inv cfg s" "reader_signalled cfg env s = Some s'"
  shows "index_inv cfg s'"
  using assms(3)
proof (cases rule: reader_signalledE)
  case (read_ok chunk)
  from assms(1) read_ok(1) have N: "unat (numToWrite s) + 1 \<le> unat (num_block cfg)"
    by (simp add: counter_inv_def)
  from assms(2) read_ok(1) have idx: "unat (r_idx s) < unat (num_block cfg)"
    using N by (simp add: index_inv_def)
  have "unat (buf_idx cfg (r_idx s)) + length chunk
          \<le> unat (num_block cfg) * unat (block_size cfg)"
    using sys_read_length [OF read_ok(2)]
    by (auto simp: buf_idx_def intro!: slot_in_buffer [OF idx unat_mult_le])
  with assms(2) read_ok show ?thesis
    by (simp add: index_inv_def r_cur_def w_cur_def length_store_bytes)
next
  case "next"
  from assms(2) "next"(1) have pos: "1 \<le> n_pub (events s)" and N: "0 < unat (num_block cfg)"
    by (auto simp: index_inv_def)
  from assms(2) "next"(1) N have idx: "unat (r_idx s) < unat (num_block cfg)"
    by (simp add: index_inv_def)
  have "unat (next_block_idx cfg (r_idx s)) = n_pub (events s) mod unat (num_block cfg)"
    using assms(2) "next"(1) pos
    by (simp add: next_block_idx_unat [OF idx] index_inv_def r_cur_def mod_Suc_eq)
  with assms(2) "next" show ?thesis
    by (simp add: index_inv_def r_cur_def w_cur_def)
qed (use assms(1,2) in
      \<open>(clarsimp simp: index_inv_def counter_inv_def r_cur_def w_cur_def; fail)\<close>)+

lemma index_inv_writer:
  assumes "counter_inv cfg s" "index_inv cfg s" "writer_signalled cfg env s = Some s'"
  shows "index_inv cfg s'"
  using assms(3)
proof (cases rule: writer_signalledE)
  case "next"
  from assms(1,2) "next"(1) have pos: "1 \<le> n_rel (events s)" and N: "0 < unat (num_block cfg)"
    by (auto simp: index_inv_def counter_inv_def)
  from assms(2) "next"(1) N have idx: "unat (w_idx s) < unat (num_block cfg)"
    by (simp add: index_inv_def)
  have "unat (next_block_idx cfg (w_idx s)) = n_rel (events s) mod unat (num_block cfg)"
    using assms(2) "next"(1) pos
    by (simp add: next_block_idx_unat [OF idx] index_inv_def w_cur_def mod_Suc_eq)
  with assms(2) "next" show ?thesis
    by (simp add: index_inv_def r_cur_def w_cur_def)
qed (use assms(1,2) in
      \<open>(clarsimp simp: index_inv_def counter_inv_def r_cur_def w_cur_def; fail)\<close>)+

section \<open>Slot metadata between publication and reuse\<close>

text \<open>
  \<open>r_dirty\<close> is 1 once the reader has begun to overwrite the metadata of the slot it
  fills next (the one it will publish as number \<open>n_pub\<close>).
\<close>

fun r_dirty :: "rloc \<Rightarrow> cint \<Rightarrow> nat" where
  "r_dirty R_size r = 1"
| "r_dirty R_lock2 r = 1"
| "r_dirty R_inc r = 1"
| "r_dirty R_err_size r = 1"
| "r_dirty R_done r = (if r = - 1 then 1 else 0)"
| "r_dirty _ r = 0"

text \<open>
  The metadata of a published slot stays as published until the reader comes round to
  the same ring position: slot number \<open>k\<close> is intact while \<open>n_pub + d \<le> k + num_block\<close>.
\<close>

definition meta_stable :: "nat \<Rightarrow> block list \<Rightarrow> event list \<Rightarrow> nat \<Rightarrow> bool" where
  "meta_stable N bl es d =
     (\<forall>k < n_pub es. n_pub es + d \<le> k + N \<longrightarrow> bl ! (k mod N) = snd (pubs es ! k))"

definition pubs_idx :: "nat \<Rightarrow> event list \<Rightarrow> bool" where
  "pubs_idx N es = (\<forall>k < n_pub es. unat (fst (pubs es ! k)) = k mod N)"

definition slots_inv :: "config \<Rightarrow> state \<Rightarrow> bool" where
  "slots_inv cfg s =
     (unat (numToWrite s) + r_dirty (r_pc s) (r_ret s) \<le> unat (num_block cfg)
      \<and> meta_stable (unat (num_block cfg)) (blocks s) (events s) (r_dirty (r_pc s) (r_ret s))
      \<and> pubs_idx (unat (num_block cfg)) (events s))"

lemma ring_distinct:
  assumes "k < m" "m + 1 \<le> k + (N :: nat)"
  shows "k mod N \<noteq> m mod N"
proof
  assume eq: "k mod N = m mod N"
  from eq have "m mod N = k mod N" by simp
  with assms(1) have "N dvd m - k"
    using mod_eq_dvd_iff_nat [of k m N] by simp
  moreover from assms have "0 < m - k" "m - k < N" by simp_all
  ultimately show False by (simp add: dvd_imp_le leD)
qed

lemma meta_stable_Nil [simp]: "meta_stable N bl [] d"
  by (simp add: meta_stable_def)

lemma meta_stable_other [simp]: "pub_of e = [] \<Longrightarrow> meta_stable N bl (es @ [e]) d = meta_stable N bl es d"
  by (simp add: meta_stable_def)

lemma meta_stable_weaken: "meta_stable N bl es 0 \<Longrightarrow> meta_stable N bl es d"
  by (simp add: meta_stable_def)

lemma meta_stable_update:
  assumes "meta_stable N bl es d" "d \<le> Suc 0"
  shows "meta_stable N (bl[n_pub es mod N := x]) es (Suc 0)"
  unfolding meta_stable_def
proof (intro allI impI)
  fix k assume k: "k < n_pub es" and r: "n_pub es + Suc 0 \<le> k + N"
  from k r have "k mod N \<noteq> n_pub es mod N" by (intro ring_distinct) simp_all
  then have "bl[n_pub es mod N := x] ! (k mod N) = bl ! (k mod N)" by simp
  also have "\<dots> = snd (pubs es ! k)" using assms k r by (simp add: meta_stable_def)
  finally show "bl[n_pub es mod N := x] ! (k mod N) = snd (pubs es ! k)" .
qed

lemma meta_stable_publish:
  assumes "meta_stable N bl es (Suc 0)"
  shows "meta_stable N bl (es @ [Ev_publish j (bl ! (n_pub es mod N))]) 0"
  using assms by (auto simp: meta_stable_def n_pub_def nth_append less_Suc_eq)

lemma pubs_idx_Nil [simp]: "pubs_idx N []"
  by (simp add: pubs_idx_def)

lemma pubs_idx_other [simp]: "pub_of e = [] \<Longrightarrow> pubs_idx N (es @ [e]) = pubs_idx N es"
  by (simp add: pubs_idx_def)

lemma pubs_idx_publish:
  assumes "pubs_idx N es" "unat j = n_pub es mod N"
  shows "pubs_idx N (es @ [Ev_publish j b])"
  using assms by (auto simp: pubs_idx_def n_pub_def nth_append less_Suc_eq)

lemma slots_inv_init: "slots_inv cfg (main_init cfg env)"
  by (simp add: slots_inv_def main_init_def)

lemma meta_stable_set:
  assumes "meta_stable N bl es d" "d \<le> Suc 0" "unat i = n_pub es mod N"
  shows "meta_stable N (set_end bl i b) es (Suc 0)"
    and "meta_stable N (set_size bl i n) es (Suc 0)"
  using meta_stable_update [OF assms(1,2)] assms(3)
  by (simp_all add: set_end_def set_size_def)

lemma slots_inv_reader:
  assumes "counter_inv cfg s" "index_inv cfg s" "slots_inv cfg s"
    and "reader_signalled cfg env s = Some s'"
  shows "slots_inv cfg s'"
  using assms(4)
proof (cases rule: reader_signalledE)
  case switch_eof
  with assms(1,2,3) show ?thesis
    by (simp add: slots_inv_def counter_inv_def index_inv_def r_cur_def
                  meta_stable_set [where d = 0])
next
  case switch_data
  with assms(1,2,3) show ?thesis
    by (simp add: slots_inv_def counter_inv_def index_inv_def r_cur_def
                  meta_stable_set [where d = 0])
next
  case err_end
  with assms(1,2,3) show ?thesis
    by (simp add: slots_inv_def counter_inv_def index_inv_def r_cur_def
                  meta_stable_set [where d = 0])
next
  case err_size
  with assms(1,2,3) show ?thesis
    by (simp add: slots_inv_def counter_inv_def index_inv_def r_cur_def
                  meta_stable_set [where d = "Suc 0"])
next
  case size
  with assms(1,2,3) show ?thesis
    by (simp add: slots_inv_def counter_inv_def index_inv_def r_cur_def
                  meta_stable_set [where d = "Suc 0"])
next
  case inc
  with assms(1,2,3) show ?thesis
    by (simp add: slots_inv_def counter_inv_def index_inv_def r_cur_def
                  meta_stable_publish pubs_idx_publish
                  unat_inc32 [where m = "num_block cfg"])
qed (use assms(1,2,3) in
      \<open>(clarsimp simp: slots_inv_def counter_inv_def index_inv_def meta_stable_weaken; fail)\<close>)+

lemma slots_inv_writer:
  assumes "counter_inv cfg s" "slots_inv cfg s"
    and "writer_signalled cfg env s = Some s'"
  shows "slots_inv cfg s'"
  using assms(3) assms(1,2)
  by (cases rule: writer_signalledE;
      clarsimp simp: slots_inv_def counter_inv_def unat_dec32; arith?)

section \<open>The end flag\<close>

fun r_end_now :: "rloc \<Rightarrow> cint \<Rightarrow> bool" where
  "r_end_now R_err_size r = True"
| "r_end_now R_size r = True"
| "r_end_now R_done r = True"
| "r_end_now R_lock2 r = (r = 0)"
| "r_end_now R_inc r = (r = 0)"
| "r_end_now R_signal r = (r = 0)"
| "r_end_now R_unlock2 r = (r = 0)"
| "r_end_now R_endchk r = (r = 0)"
| "r_end_now _ r = False"

fun r_published_end :: "rloc \<Rightarrow> bool" where
  "r_published_end R_signal = True"
| "r_published_end R_unlock2 = True"
| "r_published_end R_endchk = True"
| "r_published_end R_done = True"
| "r_published_end _ = False"

text \<open>Among the \<open>N\<close> slots, the end flag is set on slot \<open>i\<close> if \<open>b\<close>, and on no other.\<close>

definition ends_at :: "nat \<Rightarrow> block list \<Rightarrow> nat \<Rightarrow> bool \<Rightarrow> bool" where
  "ends_at N bl i b = (\<forall>j < N. end_blk (bl ! j) = (j = i \<and> b))"

text \<open>
  A published slot that carries the end flag is the last one published; the reader is then
  past its increment for good, and its last \<open>read\<close> returned 0.
\<close>

definition pub_ends :: "event list \<Rightarrow> rloc \<Rightarrow> cint \<Rightarrow> bool" where
  "pub_ends es pc r =
     (\<forall>k < n_pub es. end_blk (snd (pubs es ! k))
        \<longrightarrow> Suc k = n_pub es \<and> r_published_end pc \<and> r = 0)"

definition no_end_flag :: "nat \<Rightarrow> block list \<Rightarrow> bool" where
  "no_end_flag N bl = (\<forall>j < N. \<not> end_blk (bl ! j))"

definition no_end_published :: "event list \<Rightarrow> bool" where
  "no_end_published es = (\<forall>k < n_pub es. \<not> end_blk (snd (pubs es ! k)))"

definition only_last_end :: "event list \<Rightarrow> cint \<Rightarrow> bool" where
  "only_last_end es r =
     (\<forall>k < n_pub es. end_blk (snd (pubs es ! k)) \<longrightarrow> Suc k = n_pub es \<and> r = 0)"

definition end_inv :: "config \<Rightarrow> state \<Rightarrow> bool" where
  "end_inv cfg s =
     (ends_at (unat (num_block cfg)) (blocks s) (unat (r_idx s))
        (r_end_now (r_pc s) (r_ret s))
      \<and> pub_ends (events s) (r_pc s) (r_ret s))"

lemma ends_at_False [simp]: "ends_at N bl i False = no_end_flag N bl"
  by (simp add: ends_at_def no_end_flag_def)

lemma ends_at_set_end:
  assumes "no_end_flag N bl" "length bl = N"
  shows "ends_at N (set_end bl idx True) (unat idx) True"
  using assms
  by (cases "unat idx < length bl")
     (auto simp: ends_at_def no_end_flag_def set_end_def nth_list_update)

lemma ends_at_set_size [simp]:
  "length bl = N \<Longrightarrow> ends_at N (set_size bl idx v) i b = ends_at N bl i b"
  by (cases "unat idx < length bl")
     (auto simp: ends_at_def set_size_def nth_list_update)

lemma no_end_flag_set_size [simp]:
  "length bl = N \<Longrightarrow> no_end_flag N (set_size bl idx v) = no_end_flag N bl"
  using ends_at_set_size [of bl N idx v 0 False] by simp

lemma ends_at_self: "ends_at N bl i b \<Longrightarrow> i < N \<Longrightarrow> end_blk (bl ! i) = b"
  by (simp add: ends_at_def)

lemma pub_ends_Nil [simp]: "pub_ends [] pc r"
  by (simp add: pub_ends_def)

lemma pub_ends_other [simp]:
  "pub_of e = [] \<Longrightarrow> pub_ends (es @ [e]) pc r = pub_ends es pc r"
  by (simp add: pub_ends_def)

lemma pub_ends_unpublished:
  "\<not> r_published_end pc \<Longrightarrow> pub_ends es pc r = no_end_published es"
  by (auto simp: pub_ends_def no_end_published_def)

lemma pub_ends_published:
  "r_published_end pc \<Longrightarrow> pub_ends es pc r = only_last_end es r"
  by (auto simp: pub_ends_def only_last_end_def)

lemma no_end_published_other [simp]:
  "pub_of e = [] \<Longrightarrow> no_end_published (es @ [e]) = no_end_published es"
  by (simp add: no_end_published_def)

lemma only_last_end_other [simp]:
  "pub_of e = [] \<Longrightarrow> only_last_end (es @ [e]) r = only_last_end es r"
  by (simp add: only_last_end_def)

lemma only_last_end_none [simp]: "no_end_published es \<Longrightarrow> only_last_end es r"
  by (simp add: only_last_end_def no_end_published_def)

lemma only_last_end_publish:
  assumes "no_end_published es" "end_blk b \<longrightarrow> r = 0"
  shows "only_last_end (es @ [Ev_publish j b]) r"
  using assms
  by (auto simp: only_last_end_def no_end_published_def n_pub_def nth_append less_Suc_eq)

lemma only_last_end_retire:
  assumes "only_last_end es r" "r \<noteq> 0"
  shows "no_end_published es"
  using assms by (auto simp: only_last_end_def no_end_published_def)

lemma end_inv_init: "end_inv cfg (main_init cfg env)"
  by (simp add: end_inv_def main_init_def no_end_flag_def)

lemma reader_idx_in_range:
  assumes "counter_inv cfg s" "index_inv cfg s"
    and "r_claim (r_pc s) = 1 \<or> 0 < n_pub (events s)"
  shows "unat (r_idx s) < unat (num_block cfg)"
proof -
  from assms have "0 < unat (num_block cfg)"
    by (auto simp: counter_inv_def index_inv_def)
  with assms(2) show ?thesis by (simp add: index_inv_def)
qed

lemma end_inv_reader:
  assumes "counter_inv cfg s" "index_inv cfg s" "end_inv cfg s"
    and "reader_signalled cfg env s = Some s'"
  shows "end_inv cfg s'"
proof -
  from assms(2) have len: "length (blocks s) = unat (num_block cfg)"
    and ret: "ret_ok (r_pc s) (r_ret s)"
    by (simp_all add: index_inv_def)
  have flag: "end_blk (blocks s ! unat (r_idx s)) = r_end_now (r_pc s) (r_ret s)"
    if "r_claim (r_pc s) = 1 \<or> 0 < n_pub (events s)"
    using ends_at_self [OF _ reader_idx_in_range [OF assms(1,2) that]] assms(3)
    by (simp add: end_inv_def del: ends_at_False)
  from assms(4) show ?thesis
  proof (cases rule: reader_signalledE)
    case switch_eof
    with assms(3) len show ?thesis
      by (clarsimp simp: end_inv_def ends_at_set_end pub_ends_unpublished)
  next
    case err_end
    with assms(3) len show ?thesis
      by (clarsimp simp: end_inv_def ends_at_set_end pub_ends_unpublished)
  next
    case inc
    with flag have "end_blk (blocks s ! unat (r_idx s)) = (r_ret s = 0)" by simp
    with assms(3) inc show ?thesis
      by (clarsimp simp: end_inv_def pub_ends_unpublished pub_ends_published
                    only_last_end_publish simp del: ends_at_False)
  next
    case endchk_end
    from assms(2) endchk_end(1) have "0 < n_pub (events s)" by (simp add: index_inv_def)
    with flag endchk_end(1,2) have "r_ret s = 0" by simp
    with assms(3) endchk_end show ?thesis
      by (clarsimp simp: end_inv_def pub_ends_published simp del: ends_at_False)
  next
    case endchk_more
    from assms(2) endchk_more(1) have "0 < n_pub (events s)" by (simp add: index_inv_def)
    with flag endchk_more(1,2) have "r_ret s \<noteq> 0" by simp
    with assms(3) endchk_more show ?thesis
      by (clarsimp simp: end_inv_def pub_ends_published pub_ends_unpublished
                    only_last_end_retire)
  qed (use assms(3) len ret in
        \<open>(clarsimp simp: end_inv_def pub_ends_unpublished pub_ends_published; fail)\<close>)+
qed

lemma end_inv_writer:
  assumes "end_inv cfg s" "writer_signalled cfg env s = Some s'"
  shows "end_inv cfg s'"
  using assms(2)
proof (cases rule: writer_signalledE)
  case signal
  with assms(1) show ?thesis
    by (cases "r_pc s = R_wait") (simp_all add: end_inv_def pub_ends_unpublished)
qed (use assms(1) in \<open>(clarsimp simp: end_inv_def; fail)\<close>)+

section \<open>First in, first out\<close>

text \<open>The slots the writer has passed to \<open>write\<close>, in order, each with the size it asked for.\<close>

fun write_of :: "event \<Rightarrow> (uint \<times> size_t) list" where
  "write_of (Ev_write i n r) = [(i, n)]"
| "write_of _ = []"

definition writes :: "event list \<Rightarrow> (uint \<times> size_t) list" where
  "writes es = concat (map write_of es)"

definition n_wr :: "event list \<Rightarrow> nat" where
  "n_wr es = length (writes es)"

fun w_wrote :: "wloc \<Rightarrow> nat" where
  "w_wrote W_chk_err = 1"
| "w_wrote W_chk_short = 1"
| "w_wrote W_endchk = 1"
| "w_wrote W_lock2 = 1"
| "w_wrote W_dec = 1"
| "w_wrote W_done = 1"
| "w_wrote _ = 0"

fun w_at_end :: "wloc \<Rightarrow> bool" where
  "w_at_end W_chk_err = True"
| "w_at_end W_chk_short = True"
| "w_at_end W_endchk = True"
| "w_at_end W_done = True"
| "w_at_end _ = False"

text \<open>The \<open>k\<close>-th slot written is the \<open>k\<close>-th slot published, with the size it was published with.\<close>

definition fifo :: "event list \<Rightarrow> bool" where
  "fifo es =
     (\<forall>k < n_wr es. k < n_pub es
        \<and> writes es ! k = (fst (pubs es ! k), size_blk (snd (pubs es ! k))))"

definition no_end_written :: "event list \<Rightarrow> bool" where
  "no_end_written es = (\<forall>k < n_wr es. \<not> end_blk (snd (pubs es ! k)))"

definition last_written_end :: "event list \<Rightarrow> bool" where
  "last_written_end es = (\<forall>k < n_wr es. end_blk (snd (pubs es ! k)) \<longrightarrow> Suc k = n_wr es)"

definition wr_ends :: "event list \<Rightarrow> wloc \<Rightarrow> bool" where
  "wr_ends es pc = (if w_at_end pc then last_written_end es else no_end_written es)"

definition w_done_ok :: "event list \<Rightarrow> wloc \<Rightarrow> bool" where
  "w_done_ok es pc =
     (pc = W_done \<longrightarrow> 0 < n_wr es \<and> end_blk (snd (pubs es ! (n_wr es - 1))))"

definition fifo_inv :: "state \<Rightarrow> bool" where
  "fifo_inv s =
     (n_wr (events s) = n_rel (events s) + w_wrote (w_pc s)
      \<and> fifo (events s)
      \<and> wr_ends (events s) (w_pc s)
      \<and> w_done_ok (events s) (w_pc s))"

lemma writes_Nil [simp]: "writes [] = []"
  by (simp add: writes_def)

lemma writes_snoc [simp]: "writes (es @ [e]) = writes es @ write_of e"
  by (simp add: writes_def)

lemma n_wr_Nil [simp]: "n_wr [] = 0"
  by (simp add: n_wr_def)

lemma n_wr_snoc [simp]: "n_wr (es @ [e]) = n_wr es + length (write_of e)"
  by (simp add: n_wr_def)

lemma fifo_Nil [simp]: "fifo []"
  by (simp add: fifo_def)

lemma fifo_other [simp]:
  "pub_of e = [] \<Longrightarrow> write_of e = [] \<Longrightarrow> fifo (es @ [e]) = fifo es"
  by (simp add: fifo_def)

lemma no_end_written_other [simp]:
  "pub_of e = [] \<Longrightarrow> write_of e = [] \<Longrightarrow> no_end_written (es @ [e]) = no_end_written es"
  by (simp add: no_end_written_def)

lemma last_written_end_other [simp]:
  "pub_of e = [] \<Longrightarrow> write_of e = [] \<Longrightarrow> last_written_end (es @ [e]) = last_written_end es"
  by (simp add: last_written_end_def)

lemma w_done_ok_other [simp]:
  "pub_of e = [] \<Longrightarrow> write_of e = [] \<Longrightarrow> w_done_ok (es @ [e]) pc = w_done_ok es pc"
  by (simp add: w_done_ok_def)

lemma wr_ends_other [simp]:
  "pub_of e = [] \<Longrightarrow> write_of e = [] \<Longrightarrow> wr_ends (es @ [e]) pc = wr_ends es pc"
  by (simp add: wr_ends_def)

lemma fifo_publish:
  assumes "fifo es"
  shows "fifo (es @ [Ev_publish j b])"
    and "no_end_written (es @ [Ev_publish j b]) = no_end_written es"
    and "last_written_end (es @ [Ev_publish j b]) = last_written_end es"
    and "w_done_ok (es @ [Ev_publish j b]) pc = w_done_ok es pc"
proof -
  have lt: "k < n_pub es" if "k < n_wr es" for k
    using assms that by (simp add: fifo_def)
  then have nth: "(pubs es @ [(j, b)]) ! k = pubs es ! k" if "k < n_wr es" for k
    using that by (simp add: nth_append n_pub_def)
  show "fifo (es @ [Ev_publish j b])"
    using assms by (auto simp: fifo_def nth)
  show "no_end_written (es @ [Ev_publish j b]) = no_end_written es"
    by (simp add: no_end_written_def nth)
  show "last_written_end (es @ [Ev_publish j b]) = last_written_end es"
    by (simp add: last_written_end_def nth)
  show "w_done_ok (es @ [Ev_publish j b]) pc = w_done_ok es pc"
    by (auto simp: w_done_ok_def nth)
qed

lemma fifo_write:
  assumes "fifo es" "n_wr es < n_pub es"
    and "i = fst (pubs es ! n_wr es)" "n = size_blk (snd (pubs es ! n_wr es))"
  shows "fifo (es @ [Ev_write i n r])"
  using assms by (auto simp: fifo_def n_wr_def nth_append less_Suc_eq)

lemma last_written_end_write:
  "no_end_written es \<Longrightarrow> last_written_end (es @ [Ev_write i n r])"
  by (auto simp: no_end_written_def last_written_end_def less_Suc_eq)

lemma no_end_written_retire:
  assumes "last_written_end es" "n_wr es = Suc m" "\<not> end_blk (snd (pubs es ! m))"
  shows "no_end_written es"
  using assms by (auto simp: no_end_written_def last_written_end_def)

lemma fifo_inv_init: "fifo_inv (main_init cfg env)"
  by (simp add: fifo_inv_def main_init_def wr_ends_def no_end_written_def w_done_ok_def)

text \<open>While the writer has a claim on a slot, the slot still is as it was published.\<close>

lemma writer_slot:
  assumes "counter_inv cfg s" "index_inv cfg s" "slots_inv cfg s"
    and "w_claim (w_pc s) = 1"
  shows "n_rel (events s) < n_pub (events s)"
    and "blocks s ! unat (w_idx s) = snd (pubs (events s) ! n_rel (events s))"
    and "fst (pubs (events s) ! n_rel (events s)) = w_idx s"
proof -
  from assms(4) have wb: "w_back (w_pc s) = 0"
    by (cases "w_pc s") simp_all
  from assms(1,4) show lt: "n_rel (events s) < n_pub (events s)"
    by (simp add: counter_inv_def)
  from assms(2) wb
  have idx: "unat (w_idx s) = n_rel (events s) mod unat (num_block cfg)"
    by (simp add: index_inv_def w_cur_def)
  from assms(1,3) have "n_pub (events s) + r_dirty (r_pc s) (r_ret s)
      \<le> n_rel (events s) + unat (num_block cfg)"
    by (simp add: counter_inv_def slots_inv_def)
  with assms(3) lt idx
  show "blocks s ! unat (w_idx s) = snd (pubs (events s) ! n_rel (events s))"
    by (simp add: slots_inv_def meta_stable_def)
  from assms(3) lt idx
  have "unat (fst (pubs (events s) ! n_rel (events s))) = unat (w_idx s)"
    by (simp add: slots_inv_def pubs_idx_def)
  then show "fst (pubs (events s) ! n_rel (events s)) = w_idx s"
    by (simp add: word_unat_eq_iff)
qed

lemma fifo_inv_reader:
  assumes "fifo_inv s" "reader_signalled cfg env s = Some s'"
  shows "fifo_inv s'"
  using assms(2)
proof (cases rule: reader_signalledE)
  case inc
  with assms(1) show ?thesis
    by (clarsimp simp: fifo_inv_def wr_ends_def fifo_publish)
next
  case signal
  with assms(1) show ?thesis
    by (cases "w_pc s = W_wait") (clarsimp simp: fifo_inv_def wr_ends_def w_done_ok_def)+
qed (use assms(1) in \<open>(clarsimp simp: fifo_inv_def; fail)\<close>)+

lemma fifo_inv_writer:
  assumes "counter_inv cfg s" "index_inv cfg s" "slots_inv cfg s" "fifo_inv s"
    and "writer_signalled cfg env s = Some s'"
  shows "fifo_inv s'"
proof -
  note slot = writer_slot [OF assms(1,2,3)]
  from assms(5) show ?thesis
  proof (cases rule: writer_signalledE)
    case write_err
    with assms(4) slot show ?thesis
      by (clarsimp simp: fifo_inv_def wr_ends_def w_done_ok_def fifo_write
                         last_written_end_write)
  next
    case (write_ok sent)
    with assms(4) slot show ?thesis
      by (clarsimp simp: fifo_inv_def wr_ends_def w_done_ok_def fifo_write
                         last_written_end_write)
  next
    case endchk_end
    with assms(4) slot show ?thesis
      by (clarsimp simp: fifo_inv_def wr_ends_def w_done_ok_def)
  next
    case endchk_more
    with assms(4) slot show ?thesis
      by (clarsimp simp: fifo_inv_def wr_ends_def w_done_ok_def
                         no_end_written_retire [where m = "n_rel (events s)"])
  qed (use assms(4) in \<open>(clarsimp simp: fifo_inv_def wr_ends_def w_done_ok_def; fail)\<close>)+
qed

section \<open>Signals\<close>

fun is_signal_read :: "event \<Rightarrow> bool" where
  "is_signal_read Ev_signal_read_cv = True"
| "is_signal_read _ = False"

fun is_signal_write :: "event \<Rightarrow> bool" where
  "is_signal_write Ev_signal_write_cv = True"
| "is_signal_write _ = False"

definition n_sigr :: "event list \<Rightarrow> nat" where
  "n_sigr es = length (filter is_signal_read es)"

definition n_sigw :: "event list \<Rightarrow> nat" where
  "n_sigw es = length (filter is_signal_write es)"

lemma n_sigr_Nil [simp]: "n_sigr [] = 0"
  by (simp add: n_sigr_def)

lemma n_sigr_snoc [simp]: "n_sigr (es @ [e]) = n_sigr es + (if is_signal_read e then 1 else 0)"
  by (simp add: n_sigr_def)

lemma n_sigw_Nil [simp]: "n_sigw [] = 0"
  by (simp add: n_sigw_def)

lemma n_sigw_snoc [simp]: "n_sigw (es @ [e]) = n_sigw es + (if is_signal_write e then 1 else 0)"
  by (simp add: n_sigw_def)

text \<open>Every update of the counter is followed by its signal, inside the same critical section.\<close>

definition signal_inv :: "state \<Rightarrow> bool" where
  "signal_inv s =
     (n_sigw (events s) + r_gave (r_pc s) = n_pub (events s)
      \<and> n_sigr (events s) + w_gave (w_pc s) = n_rel (events s))"

lemma signal_inv_init: "signal_inv (main_init cfg env)"
  by (simp add: signal_inv_def main_init_def)

lemma signal_inv_reader:
  assumes "mutex_inv s" "signal_inv s" "reader_signalled cfg env s = Some s'"
  shows "signal_inv s'"
  using assms(3) assms(1,2)
  by (cases rule: reader_signalledE; clarsimp simp: signal_inv_def mutex_inv_def)

lemma signal_inv_writer:
  assumes "mutex_inv s" "signal_inv s" "writer_signalled cfg env s = Some s'"
  shows "signal_inv s'"
  using assms(3) assms(1,2)
  by (cases rule: writer_signalledE; clarsimp simp: signal_inv_def mutex_inv_def)

section \<open>All invariants together\<close>

definition inv :: "config \<Rightarrow> state \<Rightarrow> bool" where
  "inv cfg s =
     (mutex_inv s \<and> counter_inv cfg s \<and> index_inv cfg s \<and> slots_inv cfg s
      \<and> end_inv cfg s \<and> fifo_inv s \<and> signal_inv s)"

lemma inv_init: "inv cfg (main_init cfg env)"
  by (simp add: inv_def mutex_inv_init counter_inv_init index_inv_init slots_inv_init
                end_inv_init fifo_inv_init signal_inv_init)

lemma inv_signalled:
  assumes "inv cfg s"
  shows "reader_signalled cfg env s = Some s' \<Longrightarrow> inv cfg s'"
    and "writer_signalled cfg env s = Some s' \<Longrightarrow> inv cfg s'"
proof -
  assume st: "reader_signalled cfg env s = Some s'"
  from assms show "inv cfg s'"
    unfolding inv_def
    by (intro conjI mutex_inv_reader [OF _ st] counter_inv_reader [OF _ _ st]
              index_inv_reader [OF _ _ st] slots_inv_reader [OF _ _ _ st]
              end_inv_reader [OF _ _ _ st] fifo_inv_reader [OF _ st]
              signal_inv_reader [OF _ _ st]) simp_all
next
  assume st: "writer_signalled cfg env s = Some s'"
  from assms show "inv cfg s'"
    unfolding inv_def
    by (intro conjI mutex_inv_writer [OF _ st] counter_inv_writer [OF _ _ st]
              index_inv_writer [OF _ _ st] slots_inv_writer [OF _ _ st]
              end_inv_writer [OF _ st] fifo_inv_writer [OF _ _ _ _ st]
              signal_inv_writer [OF _ _ st]) simp_all
qed

text \<open>A step that leaves no \<open>Ev_wakeup\<close> in the log is none of the unsignalled returns.\<close>

lemma n_wake_reader:
  "readerThread_step cfg env s = Some s' \<Longrightarrow> n_wake (events s) \<le> n_wake (events s')"
  by (erule reader_stepE; simp)

lemma n_wake_writer:
  "writerThread_step cfg env s = Some s' \<Longrightarrow> n_wake (events s) \<le> n_wake (events s')"
  by (erule writer_stepE; simp)

lemma n_wake_step:
  "step cfg env t s = Some s' \<Longrightarrow> n_wake (events s) \<le> n_wake (events s')"
  by (cases t) (simp_all add: n_wake_reader n_wake_writer)

lemma n_wake_exec:
  "exec cfg env sched s = Some s' \<Longrightarrow> n_wake (events s) \<le> n_wake (events s')"
proof (induction sched arbitrary: s)
  case Nil
  then show ?case by simp
next
  case (Cons t ts)
  from Cons.prems obtain s1 where
    s1: "step cfg env t s = Some s1" and rest: "exec cfg env ts s1 = Some s'"
    by (auto split: option.splits)
  from n_wake_step [OF s1] Cons.IH [OF rest] show ?case by simp
qed

lemma reader_step_signalled:
  assumes "readerThread_step cfg env s = Some s'" "n_wake (events s') = 0"
  shows "reader_signalled cfg env s = Some s'"
proof (cases "r_pc s = R_wait")
  case True
  with assms show ?thesis by (auto simp: readerThread_step_def)
next
  case False
  with assms(1) show ?thesis by (simp add: reader_signalled_def)
qed

lemma writer_step_signalled:
  assumes "writerThread_step cfg env s = Some s'" "n_wake (events s') = 0"
  shows "writer_signalled cfg env s = Some s'"
proof (cases "w_pc s = W_wait")
  case True
  with assms show ?thesis by (auto simp: writerThread_step_def)
next
  case False
  with assms(1) show ?thesis by (simp add: writer_signalled_def)
qed

lemma inv_step:
  assumes "inv cfg s" "step cfg env t s = Some s'" "n_wake (events s') = 0"
  shows "inv cfg s'"
proof (cases t)
  case Reader
  with assms(2) have "readerThread_step cfg env s = Some s'" by simp
  from inv_signalled(1) [OF assms(1) reader_step_signalled [OF this assms(3)]]
  show ?thesis .
next
  case Writer
  with assms(2) have "writerThread_step cfg env s = Some s'" by simp
  from inv_signalled(2) [OF assms(1) writer_step_signalled [OF this assms(3)]]
  show ?thesis .
qed

text \<open>
  In every state reached without an unsignalled return from a wait, all of the above
  holds.
\<close>

lemma reachable_inv:
  assumes "reachable cfg env s" "n_wake (events s) = 0"
  shows "inv cfg s"
  using assms
proof (induction rule: reachable.induct)
  case reach_init
  show ?case by (rule inv_init)
next
  case (reach_step s t s')
  from n_wake_step [OF reach_step(2)] reach_step(4) have "n_wake (events s) = 0" by simp
  then have "inv cfg s" by (rule reach_step(3))
  from inv_step [OF this reach_step(2,4)] show ?case .
qed

section \<open>Concrete runs\<close>

text \<open>
  The three-byte copy through one two-byte slot, the reader running whenever it can.
\<close>

definition sched_reader_first :: "tid list" where
  "sched_reader_first =
     [Reader, Reader, Reader, Reader, Reader, Reader, Reader, Reader, Reader,
      Reader, Reader, Reader, Reader, Reader, Writer, Writer, Writer, Writer,
      Writer, Writer, Writer, Writer, Writer, Writer, Writer, Reader, Reader,
      Reader, Reader, Reader, Reader, Reader, Reader, Reader, Reader, Reader,
      Reader, Reader, Writer, Writer, Writer, Writer, Writer, Writer, Writer,
      Writer, Writer, Writer, Writer, Writer, Writer, Reader, Reader, Reader,
      Reader, Reader, Reader, Reader, Reader, Reader, Reader, Writer, Writer,
      Writer, Writer, Writer, Writer, Writer, Writer, Writer]"

definition st_reader_first :: state where
  "st_reader_first =
     \<lparr>blocks = [\<lparr>size_blk = 0, end_blk = True\<rparr>], buf = [3, 2], numToWrite = 1,
      file_in = 3, file_out = [1, 2, 3], read = 3, wrote = 1, fsize = 3,
      rwaits = 2, wwaits = 0, rw_mutex = None, r_pc = R_done, r_idx = 0,
      r_ret = 0, w_pc = W_done, w_idx = 0, w_ret = 0,
      events =
        [Ev_read 0 2, Ev_publish 0 \<lparr>size_blk = 2, end_blk = False\<rparr>,
         Ev_signal_write_cv, Ev_write 0 2 2, Ev_release 0, Ev_signal_read_cv,
         Ev_read 0 1, Ev_publish 0 \<lparr>size_blk = 1, end_blk = False\<rparr>,
         Ev_signal_write_cv, Ev_write 0 1 1, Ev_release 0, Ev_signal_read_cv,
         Ev_read 0 0, Ev_publish 0 \<lparr>size_blk = 0, end_blk = True\<rparr>,
         Ev_signal_write_cv, Ev_exit Reader, Ev_write 0 0 0,
         Ev_exit Writer]\<rparr>"

lemma run_reader_first:
  "exec cfg_small env_small sched_reader_first (main_init cfg_small env_small)
     = Some st_reader_first"
  by (simp add: sched_reader_first_def st_reader_first_def cfg_small_def env_small_def run_defs)

text \<open>The same copy, the writer running whenever it can.\<close>

definition sched_writer_first :: "tid list" where
  "sched_writer_first =
     [Writer, Writer, Reader, Reader, Reader, Reader, Reader, Reader, Reader,
      Reader, Reader, Writer, Writer, Writer, Writer, Writer, Writer, Writer,
      Writer, Writer, Writer, Writer, Writer, Writer, Writer, Reader, Reader,
      Reader, Reader, Reader, Reader, Reader, Reader, Reader, Reader, Reader,
      Reader, Writer, Writer, Writer, Writer, Writer, Writer, Writer, Writer,
      Writer, Writer, Writer, Writer, Writer, Writer, Reader, Reader, Reader,
      Reader, Reader, Reader, Reader, Reader, Reader, Reader, Reader, Reader,
      Reader, Writer, Writer, Writer, Writer, Writer, Writer, Reader]"

definition st_writer_first :: state where
  "st_writer_first =
     \<lparr>blocks = [\<lparr>size_blk = 0, end_blk = True\<rparr>], buf = [3, 2], numToWrite = 1,
      file_in = 3, file_out = [1, 2, 3], read = 3, wrote = 3, fsize = 3,
      rwaits = 0, wwaits = 3, rw_mutex = None, r_pc = R_done, r_idx = 0,
      r_ret = 0, w_pc = W_done, w_idx = 0, w_ret = 0,
      events =
        [Ev_read 0 2, Ev_publish 0 \<lparr>size_blk = 2, end_blk = False\<rparr>,
         Ev_signal_write_cv, Ev_write 0 2 2, Ev_release 0, Ev_signal_read_cv,
         Ev_read 0 1, Ev_publish 0 \<lparr>size_blk = 1, end_blk = False\<rparr>,
         Ev_signal_write_cv, Ev_write 0 1 1, Ev_release 0, Ev_signal_read_cv,
         Ev_read 0 0, Ev_publish 0 \<lparr>size_blk = 0, end_blk = True\<rparr>,
         Ev_signal_write_cv, Ev_write 0 0 0, Ev_exit Writer,
         Ev_exit Reader]\<rparr>"

lemma run_writer_first:
  "exec cfg_small env_small sched_writer_first (main_init cfg_small env_small)
     = Some st_writer_first"
  by (simp add: sched_writer_first_def st_writer_first_def cfg_small_def env_small_def run_defs)

text \<open>
  The same file, unreadable after its first two bytes: the state in which the reader is
  about to issue the \<open>read\<close> that fails, and the state in which the run ends.
\<close>

definition env_bad :: environ where
  "env_bad = \<lparr>src_data = [1, 2, 3], src_bad_after = Some 2, dst_room = None,
               malloc_fill = (\<lambda>_. 0)\<rparr>"

definition sched_bad_read :: "tid list" where
  "sched_bad_read =
     [Reader, Reader, Reader, Reader, Reader, Reader, Reader, Reader, Reader,
      Reader, Reader, Reader, Reader, Reader, Writer, Writer, Writer, Writer,
      Writer, Writer, Writer, Writer, Writer, Writer, Writer, Reader, Reader]"

definition st_bad_read :: state where
  "st_bad_read =
     \<lparr>blocks = [\<lparr>size_blk = 2, end_blk = False\<rparr>], buf = [1, 2], numToWrite = 0,
      file_in = 2, file_out = [1, 2], read = 2, wrote = 0, fsize = 3,
      rwaits = 1, wwaits = 0, rw_mutex = None, r_pc = R_read, r_idx = 0,
      r_ret = 2, w_pc = W_account, w_idx = 0, w_ret = 2,
      events =
        [Ev_read 0 2, Ev_publish 0 \<lparr>size_blk = 2, end_blk = False\<rparr>,
         Ev_signal_write_cv, Ev_write 0 2 2, Ev_release 0, Ev_signal_read_cv]\<rparr>"

lemma run_bad_read:
  "exec cfg_small env_bad sched_bad_read (main_init cfg_small env_bad) = Some st_bad_read"
  by (simp add: sched_bad_read_def st_bad_read_def cfg_small_def env_bad_def run_defs)

definition sched_bad_end :: "tid list" where
  "sched_bad_end = [Reader, Reader, Reader, Reader, Writer, Writer, Writer, Writer]"

definition st_bad_end :: state where
  "st_bad_end =
     \<lparr>blocks = [\<lparr>size_blk = 0, end_blk = True\<rparr>], buf = [1, 2], numToWrite = 0,
      file_in = 2, file_out = [1, 2], read = 2, wrote = 0, fsize = 3,
      rwaits = 1, wwaits = 1, rw_mutex = None, r_pc = R_done, r_idx = 0,
      r_ret = - 1, w_pc = W_wait, w_idx = 0, w_ret = 2,
      events =
        [Ev_read 0 2, Ev_publish 0 \<lparr>size_blk = 2, end_blk = False\<rparr>,
         Ev_signal_write_cv, Ev_write 0 2 2, Ev_release 0, Ev_signal_read_cv,
         Ev_read 0 (- 1), Ev_perror ''read error: '', Ev_exit Reader]\<rparr>"

lemma run_bad_end:
  "exec cfg_small env_bad sched_bad_end st_bad_read = Some st_bad_end"
  by (simp add: sched_bad_end_def st_bad_read_def st_bad_end_def cfg_small_def env_bad_def
                run_defs)

lemma reachable_bad_end: "reachable cfg_small env_bad st_bad_end"
  using exec_reachable [OF run_reachable [OF run_bad_read] run_bad_end] .

section \<open>What every run keeps, unsignalled returns included\<close>

subsection \<open>The cursors stay inside the ring\<close>

definition ring_inv :: "config \<Rightarrow> state \<Rightarrow> bool" where
  "ring_inv cfg s =
     (length (blocks s) = unat (num_block cfg)
      \<and> unat (r_idx s) < unat (num_block cfg) \<and> unat (w_idx s) < unat (num_block cfg))"

lemma next_block_idx_less:
  "unat idx < unat (num_block cfg) \<Longrightarrow> unat (next_block_idx cfg idx) < unat (num_block cfg)"
  by (simp add: next_block_idx_unat)

lemma ring_inv_init: "0 < unat (num_block cfg) \<Longrightarrow> ring_inv cfg (main_init cfg env)"
  by (simp add: ring_inv_def main_init_def)

lemma ring_inv_reader:
  "ring_inv cfg s \<Longrightarrow> readerThread_step cfg env s = Some s' \<Longrightarrow> ring_inv cfg s'"
  by (erule reader_stepE; clarsimp simp: ring_inv_def next_block_idx_less)

lemma ring_inv_writer:
  "ring_inv cfg s \<Longrightarrow> writerThread_step cfg env s = Some s' \<Longrightarrow> ring_inv cfg s'"
  by (erule writer_stepE; clarsimp simp: ring_inv_def next_block_idx_less)

lemma reachable_ring_inv:
  assumes "0 < unat (num_block cfg)" "reachable cfg env s"
  shows "ring_inv cfg s"
  using assms(2)
proof (induction rule: reachable.induct)
  case reach_init
  from assms(1) show ?case by (rule ring_inv_init)
next
  case (reach_step s t s')
  then show ?case by (cases t) (auto intro: ring_inv_reader ring_inv_writer)
qed

subsection \<open>The writer's own trail in the log\<close>

text \<open>
  An end flag, once set, stays: the reader sets it to \<open>true\<close> only, and nothing else writes
  the \<open>end\<close> fields.
\<close>

lemma end_blk_set_end: "end_blk (bl ! j) \<Longrightarrow> end_blk (set_end bl i True ! j)"
  by (cases "unat i < length bl"; cases "j = unat i")
     (simp_all add: set_end_def list_update_beyond)

lemma end_blk_set_size [simp]: "end_blk (set_size bl i n ! j) = end_blk (bl ! j)"
  by (cases "unat i < length bl"; cases "j = unat i")
     (simp_all add: set_size_def list_update_beyond)

text \<open>
  Each pass of the writer's loop writes once, then decrements once, then signals once; the
  writer leaves only with the end flag on the slot under its cursor.
\<close>

definition writer_inv :: "state \<Rightarrow> bool" where
  "writer_inv s =
     (n_wr (events s) = n_rel (events s) + w_wrote (w_pc s)
      \<and> n_sigr (events s) + w_gave (w_pc s) = n_rel (events s)
      \<and> (w_pc s = W_done \<longrightarrow> end_blk (blocks s ! unat (w_idx s))))"

lemma writer_inv_init: "writer_inv (main_init cfg env)"
  by (simp add: writer_inv_def main_init_def)

lemma writer_inv_reader:
  "writer_inv s \<Longrightarrow> readerThread_step cfg env s = Some s' \<Longrightarrow> writer_inv s'"
  by (erule reader_stepE; clarsimp simp: writer_inv_def end_blk_set_end)

lemma writer_inv_writer:
  "writer_inv s \<Longrightarrow> writerThread_step cfg env s = Some s' \<Longrightarrow> writer_inv s'"
  by (erule writer_stepE; clarsimp simp: writer_inv_def)

lemma reachable_writer_inv: "reachable cfg env s \<Longrightarrow> writer_inv s"
proof (induction rule: reachable.induct)
  case reach_init
  show ?case by (rule writer_inv_init)
next
  case (reach_step s t s')
  then show ?case by (cases t) (auto intro: writer_inv_reader writer_inv_writer)
qed







section \<open>What the writer does with a slot\<close>







section \<open>A failed read\<close>

fun r_on_error_path :: "rloc \<Rightarrow> bool" where
  "r_on_error_path R_switch = True"
| "r_on_error_path R_err_end = True"
| "r_on_error_path R_err_size = True"
| "r_on_error_path R_done = True"
| "r_on_error_path _ = False"

text \<open>
  The reader after a \<open>read\<close> that returned \<open>-1\<close>: it is on the \<open>case -1\<close> branch of the
  switch or has left through it, with the slot under its cursor marked as far as the
  branch has run.
\<close>

definition read_failed :: "state \<Rightarrow> bool" where
  "read_failed s =
     (r_ret s = - 1 \<and> r_on_error_path (r_pc s)
      \<and> (r_pc s = R_err_size \<longrightarrow> end_blk (blocks s ! unat (r_idx s)))
      \<and> (r_pc s = R_done
            \<longrightarrow> blocks s ! unat (r_idx s) = \<lparr>size_blk = 0, end_blk = True\<rparr>))"

lemma set_end_nth:
  "unat i < length bl \<Longrightarrow> set_end bl i b ! unat i = (bl ! unat i)\<lparr>end_blk := b\<rparr>"
  by (simp add: set_end_def)

lemma set_size_nth:
  "unat i < length bl \<Longrightarrow> set_size bl i n ! unat i = (bl ! unat i)\<lparr>size_blk := n\<rparr>"
  by (simp add: set_size_def)

text \<open>
  From then on the reader neither publishes nor signals, and the counter moves only by
  the writer's decrements, one for each release in the log.
\<close>

lemma read_failed_reader:
  assumes "unat (r_idx s) < length (blocks s)" "read_failed s"
    and "readerThread_step cfg env s = Some s'"
  shows "read_failed s' \<and> n_pub (events s') = n_pub (events s)
         \<and> n_sigw (events s') = n_sigw (events s) \<and> r_idx s' = r_idx s
         \<and> n_rel (events s') = n_rel (events s)
         \<and> numToWrite s' = numToWrite s \<and> w_pc s' = w_pc s"
  using assms(3)
proof (cases rule: reader_stepE)
  case switch_err
  with assms(2) show ?thesis by (simp add: read_failed_def)
next
  case err_end
  with assms(1,2) show ?thesis by (simp add: read_failed_def set_end_nth)
next
  case err_size
  with assms(1,2) show ?thesis by (simp add: read_failed_def set_size_nth)
qed (use assms(2) in \<open>(simp add: read_failed_def; fail)\<close>)+

lemma read_failed_writer:
  assumes "read_failed s" "writerThread_step cfg env s = Some s'"
  shows "read_failed s' \<and> n_pub (events s') = n_pub (events s)
         \<and> n_sigw (events s') = n_sigw (events s) \<and> r_idx s' = r_idx s
         \<and> numToWrite s' + of_nat (n_rel (events s'))
             = numToWrite s + of_nat (n_rel (events s))"
  using assms(2)
proof (cases rule: writer_stepE)
  case signal
  with assms(1) show ?thesis by (cases "r_pc s = R_wait") (simp_all add: read_failed_def)
qed (use assms(1) in \<open>(simp add: read_failed_def; fail)\<close>)+

lemma read_failed_exec:
  assumes "0 < unat (num_block cfg)" "reachable cfg env s" "read_failed s"
    and "exec cfg env sched s = Some s'"
  shows "read_failed s' \<and> n_pub (events s') = n_pub (events s)
         \<and> n_sigw (events s') = n_sigw (events s) \<and> r_idx s' = r_idx s
         \<and> numToWrite s' + of_nat (n_rel (events s'))
             = numToWrite s + of_nat (n_rel (events s))"
  using assms(2-)
proof (induction sched arbitrary: s)
  case Nil
  then show ?case by simp
next
  case (Cons t ts)
  from Cons.prems(3) obtain s1 where
    s1: "step cfg env t s = Some s1" and rest: "exec cfg env ts s1 = Some s'"
    by (auto split: option.splits)
  from Cons.prems(1) s1 have r1: "reachable cfg env s1" by (rule reach_step)
  from reachable_ring_inv [OF assms(1) Cons.prems(1)]
  have idx: "unat (r_idx s) < length (blocks s)" by (simp add: ring_inv_def)
  have a: "read_failed s1 \<and> n_pub (events s1) = n_pub (events s)
         \<and> n_sigw (events s1) = n_sigw (events s) \<and> r_idx s1 = r_idx s
         \<and> numToWrite s1 + of_nat (n_rel (events s1))
             = numToWrite s + of_nat (n_rel (events s))"
  proof (cases t)
    case Reader
    with s1 have "readerThread_step cfg env s = Some s1" by simp
    from read_failed_reader [OF idx Cons.prems(2) this] show ?thesis by simp
  next
    case Writer
    with s1 have "writerThread_step cfg env s = Some s1" by simp
    from read_failed_writer [OF Cons.prems(2) this] show ?thesis by simp
  qed
  with Cons.IH [OF r1 _ rest] show ?case by simp
qed

text \<open>
  Claim C6. When \<open>read\<close> fails (in any reachable state of a ring of at least one slot,
  whether or not a wait returned unsignalled before), the reader's next step finds
  \<open>ret = -1\<close>; left to run, its next three steps report the error, set \<open>end\<close>, set
  \<open>size = 0\<close> on the slot under its cursor and exit, with the counter, the writer and the
  log otherwise untouched. Whatever the writer does in between, from the failed read on
  the reader publishes nothing (\<open>n_pub\<close> stays, and the counter moves only by the writer's
  decrements, one for each release in the log), never signals \<open>ready_to_write_cv\<close>
  (\<open>n_sigw\<close> stays), and once it has exited the slot holds size 0 and the end flag and the
  reader never steps again.
\<close>

theorem read_error_exits_unpublished:
  assumes "reachable cfg env s" and "0 < unat (num_block cfg)" and "r_pc s = R_read"
    and "sys_read env (file_in s) (unat (block_size cfg)) = None"
  shows "\<exists>s1. step cfg env Reader s = Some s1 \<and> r_pc s1 = R_switch \<and> r_ret s1 = - 1
           \<and> (\<exists>s4. exec cfg env [Reader, Reader, Reader] s1 = Some s4
                 \<and> r_pc s4 = R_done
                 \<and> blocks s4 ! unat (r_idx s) = \<lparr>size_blk = 0, end_blk = True\<rparr>
                 \<and> numToWrite s4 = numToWrite s \<and> w_pc s4 = w_pc s
                 \<and> events s4 = events s @ [Ev_read (r_idx s) (- 1),
                      Ev_perror ''read error: '', Ev_exit Reader])
           \<and> (\<forall>sched s'. exec cfg env sched s1 = Some s'
                 \<longrightarrow> n_pub (events s') = n_pub (events s)
                     \<and> n_sigw (events s') = n_sigw (events s)
                     \<and> numToWrite s' + of_nat (n_rel (events s'))
                         = numToWrite s + of_nat (n_rel (events s))
                     \<and> (r_pc s' = R_done
                           \<longrightarrow> blocks s' ! unat (r_idx s) = \<lparr>size_blk = 0, end_blk = True\<rparr>
                               \<and> readerThread_step cfg env s' = None))"
proof -
  define s1 where "s1 = s\<lparr>r_ret := - 1, r_pc := R_switch,
                          events := events s @ [Ev_read (r_idx s) (- 1)]\<rparr>"
  from assms(3,4) have st: "step cfg env Reader s = Some s1"
    by (simp add: readerThread_step_def s1_def)
  from assms(1) st have r1: "reachable cfg env s1" by (rule reach_step)
  have f1: "read_failed s1" by (simp add: read_failed_def s1_def)
  from reachable_ring_inv [OF assms(2,1)]
  have idx: "unat (r_idx s) < length (blocks s)" by (simp add: ring_inv_def)
  have alone: "\<exists>s4. exec cfg env [Reader, Reader, Reader] s1 = Some s4
                 \<and> r_pc s4 = R_done
                 \<and> blocks s4 ! unat (r_idx s) = \<lparr>size_blk = 0, end_blk = True\<rparr>
                 \<and> numToWrite s4 = numToWrite s \<and> w_pc s4 = w_pc s
                 \<and> events s4 = events s @ [Ev_read (r_idx s) (- 1),
                      Ev_perror ''read error: '', Ev_exit Reader]"
    using idx by (simp add: readerThread_step_def s1_def set_end_nth set_size_nth)
  have any: "n_pub (events s') = n_pub (events s)
                     \<and> n_sigw (events s') = n_sigw (events s)
                     \<and> numToWrite s' + of_nat (n_rel (events s'))
                         = numToWrite s + of_nat (n_rel (events s))
                     \<and> (r_pc s' = R_done
                           \<longrightarrow> blocks s' ! unat (r_idx s) = \<lparr>size_blk = 0, end_blk = True\<rparr>
                               \<and> readerThread_step cfg env s' = None)"
    if "exec cfg env sched s1 = Some s'" for sched s'
    using read_failed_exec [OF assms(2) r1 f1 that]
    by (auto simp: read_failed_def s1_def readerThread_step_def)
  from st alone any show ?thesis
    by (intro exI [of _ s1]) (simp add: s1_def)
qed

theorem read_error_exits_unpublished_witness:
  "reachable cfg_small env_bad st_bad_read \<and> 0 < unat (num_block cfg_small)
   \<and> r_pc st_bad_read = R_read
   \<and> sys_read env_bad (file_in st_bad_read) (unat (block_size cfg_small)) = None
   \<and> exec cfg_small env_bad [Reader, Reader, Reader, Reader] st_bad_read
       = Some (st_bad_read\<lparr>blocks := [\<lparr>size_blk = 0, end_blk = True\<rparr>],
                 r_ret := - 1, r_pc := R_done,
                 events := events st_bad_read @ [Ev_read 0 (- 1),
                      Ev_perror ''read error: '', Ev_exit Reader]\<rparr>)"
proof -
  have r: "reachable cfg_small env_bad st_bad_read"
    by (rule run_reachable [OF run_bad_read])
  have n: "0 < unat (num_block cfg_small)" by (simp add: cfg_small_def)
  have p: "r_pc st_bad_read = R_read" by (simp add: st_bad_read_def)
  have e: "sys_read env_bad (file_in st_bad_read) (unat (block_size cfg_small)) = None"
    by (simp add: st_bad_read_def env_bad_def cfg_small_def sys_read_def)
  from read_error_exits_unpublished [OF r n p e] r p e show ?thesis
    by (simp add: st_bad_read_def env_bad_def cfg_small_def run_defs)
qed

text \<open>
  Claim C4 asks that a copy whose \<open>read\<close> fails terminates. It does not. In every state
  reached with no unsignalled return from a wait in which the reader has left through its
  error branch (\<open>ret = -1\<close>), the writer has not exited, so \<open>main\<close> stays in \<open>pthread_join\<close>
  and has no exit code; and when the writer waits on \<open>ready_to_write_cv\<close> with the reader
  gone, the one step left in the whole program is a return from that wait which nothing
  has signalled.
\<close>

theorem read_error_never_completes:
  assumes "reachable cfg env s" and "n_wake (events s) = 0"
    and "r_pc s = R_done" and "r_ret s = - 1"
  shows "w_pc s \<noteq> W_done \<and> main_exit s = None
         \<and> (w_pc s = W_wait \<longrightarrow>
              (\<forall>t s'. step cfg env t s = Some s' \<longrightarrow>
                  t = Writer
                  \<and> s' = s\<lparr>w_pc := W_relock, events := events s @ [Ev_wakeup Writer]\<rparr>))"
proof -
  from assms(1,2) have i: "inv cfg s" by (rule reachable_inv)
  have nd: "w_pc s \<noteq> W_done"
  proof
    assume d: "w_pc s = W_done"
    from i have dn: "w_done_ok (events s) (w_pc s)" and f: "fifo (events s)"
      and p: "pub_ends (events s) (r_pc s) (r_ret s)"
      by (simp_all add: inv_def fifo_inv_def end_inv_def)
    from dn d have n: "0 < n_wr (events s)"
      and e: "end_blk (snd (pubs (events s) ! (n_wr (events s) - 1)))"
      by (simp_all add: w_done_ok_def)
    from f n have "n_wr (events s) - 1 < n_pub (events s)"
      by (simp add: fifo_def)
    with p e have "r_ret s = 0"
      by (simp add: pub_ends_def)
    with assms(4) show False by simp
  qed
  have "t = Writer \<and> s' = s\<lparr>w_pc := W_relock, events := events s @ [Ev_wakeup Writer]\<rparr>"
    if "w_pc s = W_wait" "step cfg env t s = Some s'" for t s'
    using that assms(3)
    by (cases t) (auto simp: readerThread_step_def writerThread_step_def)
  with nd show ?thesis by (simp add: main_exit_def)
qed

theorem read_error_never_completes_witness:
  "reachable cfg_small env_bad st_bad_end \<and> n_wake (events st_bad_end) = 0
   \<and> r_pc st_bad_end = R_done
   \<and> r_ret st_bad_end = - 1 \<and> w_pc st_bad_end = W_wait
   \<and> main_exit st_bad_end = None
   \<and> step cfg_small env_bad Reader st_bad_end = None
   \<and> reader_signalled cfg_small env_bad st_bad_end = None
   \<and> writer_signalled cfg_small env_bad st_bad_end = None
   \<and> file_out st_bad_end = [1, 2]
   \<and> Ev_perror ''read error: '' \<in> set (events st_bad_end)"
  using read_error_never_completes [OF reachable_bad_end] reachable_bad_end
  by (simp add: st_bad_end_def main_exit_def readerThread_step_def writerThread_step_def
                reader_signalled_def writer_signalled_def n_wake_def)

section \<open>The counter under an unsignalled return\<close>

text \<open>
  As long as every wait lasts until its signal, the counter stays between 0 and
  \<open>num_block\<close>, the writer never decrements a counter that is 0 and the reader never
  increments one that has reached \<open>num_block\<close>.
\<close>

lemma counter_bound_signalled:
  assumes "reachable cfg env s" "n_wake (events s) = 0"
  shows "numToWrite s \<le> num_block cfg
         \<and> (w_pc s = W_dec \<longrightarrow> numToWrite s \<noteq> 0)
         \<and> (r_pc s = R_inc \<longrightarrow> numToWrite s < num_block cfg)"
proof -
  from assms have c: "counter_inv cfg s"
    using reachable_inv [of cfg env s] by (simp add: inv_def)
  have "unat (numToWrite s) \<le> unat (num_block cfg)"
    using c by (simp add: counter_inv_def)
  moreover have "w_pc s = W_dec \<Longrightarrow> numToWrite s \<noteq> 0"
    using c by (auto simp: counter_inv_def)
  moreover have "r_pc s = R_inc \<Longrightarrow> unat (numToWrite s) < unat (num_block cfg)"
    using c by (simp add: counter_inv_def)
  ultimately show ?thesis
    by (simp add: word_le_nat_alt word_less_nat_alt)
qed

text \<open>
  The three-byte copy through one slot. The reader fills the slot, finds the counter at
  \<open>num_block\<close> and waits; its wait returns unsignalled, and it fills the slot again and
  increments.
\<close>

definition sched_reader_wakeup :: "tid list" where
  "sched_reader_wakeup =
     [Reader, Reader, Reader, Reader, Reader, Reader, Reader, Reader, Reader,
      Reader, Reader, Reader, Reader, Reader, Reader, Reader, Reader, Reader,
      Reader, Reader, Reader]"

definition st_reader_wakeup :: state where
  "st_reader_wakeup =
     \<lparr>blocks = [\<lparr>size_blk = 1, end_blk = False\<rparr>], buf = [3, 2], numToWrite = 2,
      file_in = 3, file_out = [], read = 2, wrote = 0, fsize = 3, rwaits = 1,
      wwaits = 0, rw_mutex = Some Reader, r_pc = R_signal, r_idx = 0,
      r_ret = 1, w_pc = W_lock1, w_idx = 0, w_ret = 0,
      events =
        [Ev_read 0 2, Ev_publish 0 \<lparr>size_blk = 2, end_blk = False\<rparr>,
         Ev_signal_write_cv, Ev_wakeup Reader, Ev_read 0 1,
         Ev_publish 0 \<lparr>size_blk = 1, end_blk = False\<rparr>]\<rparr>"

text \<open>
  The same copy, the writer first. It finds the counter at 0 and waits; its wait returns
  unsignalled, and it writes the slot nobody has filled and decrements.
\<close>

definition sched_writer_wakeup :: "tid list" where
  "sched_writer_wakeup =
     [Writer, Writer, Writer, Writer, Writer, Writer, Writer, Writer, Writer,
      Writer, Writer]"

definition st_writer_wakeup :: state where
  "st_writer_wakeup =
     \<lparr>blocks = [\<lparr>size_blk = 0, end_blk = False\<rparr>], buf = [0, 0],
      numToWrite = 4294967295, file_in = 0, file_out = [], read = 0,
      wrote = 0, fsize = 3, rwaits = 0, wwaits = 1, rw_mutex = Some Writer,
      r_pc = R_lock1, r_idx = 0, r_ret = 0, w_pc = W_signal, w_idx = 0,
      w_ret = 0, events = [Ev_wakeup Writer, Ev_write 0 0 0, Ev_release 0]\<rparr>"

text \<open>
  Claim C3 asks that \<open>0 \<le> numToWrite \<le> num_block\<close> in every reachable state. Both waits
  stand under an \<open>if\<close>, not a \<open>while\<close>: after one unsignalled return the reader increments
  the counter to 2 with \<open>num_block = 1\<close> (and has overwritten the slot the writer has yet
  to write), and the writer decrements the counter from 0, which as an \<open>unsigned int\<close> is
  4294967295 (and has written a slot that was never published).
\<close>

theorem counter_bound_broken_by_wakeup:
  "exec cfg_small env_small sched_reader_wakeup (main_init cfg_small env_small)
     = Some st_reader_wakeup
   \<and> num_block cfg_small = 1 \<and> numToWrite (main_init cfg_small env_small) = 0
   \<and> numToWrite st_reader_wakeup = 2
   \<and> \<not> numToWrite st_reader_wakeup \<le> num_block cfg_small
   \<and> n_wake (events st_reader_wakeup) = 1
   \<and> n_pub (events st_reader_wakeup) = 2 \<and> n_wr (events st_reader_wakeup) = 0
   \<and> exec cfg_small env_small sched_writer_wakeup (main_init cfg_small env_small)
     = Some st_writer_wakeup
   \<and> numToWrite st_writer_wakeup = 0 - 1
   \<and> unat (numToWrite st_writer_wakeup) = 4294967295
   \<and> \<not> numToWrite st_writer_wakeup \<le> num_block cfg_small
   \<and> n_wake (events st_writer_wakeup) = 1
   \<and> n_pub (events st_writer_wakeup) = 0 \<and> n_wr (events st_writer_wakeup) = 1"
  by (simp add: sched_reader_wakeup_def st_reader_wakeup_def sched_writer_wakeup_def
                st_writer_wakeup_def cfg_small_def env_small_def run_defs
                n_wake_def n_pub_def pubs_def n_wr_def writes_def
                upt_conv_Cons word_le_nat_alt)

section \<open>The bytes that arrive\<close>

text \<open>
  The run of \<open>sched_reader_wakeup\<close>, continued: the reader waits again, returns unsignalled
  again, reads the end of the file into the same slot, publishes it and exits; then the
  writer runs.
\<close>

definition sched_overrun :: "tid list" where
  "sched_overrun =
     [Reader, Reader, Reader, Reader, Reader, Reader, Reader, Reader, Reader,
      Reader, Reader, Reader, Reader, Reader, Reader, Reader, Reader, Reader,
      Reader, Reader, Reader, Reader, Reader, Reader, Reader, Reader, Reader,
      Reader, Reader, Reader, Reader, Reader, Reader, Reader, Reader, Reader,
      Reader, Reader, Reader, Writer, Writer, Writer, Writer, Writer, Writer,
      Writer]"

definition st_overrun :: state where
  "st_overrun =
     \<lparr>blocks = [\<lparr>size_blk = 0, end_blk = True\<rparr>], buf = [3, 2], numToWrite = 3,
      file_in = 3, file_out = [], read = 3, wrote = 0, fsize = 3, rwaits = 2,
      wwaits = 0, rw_mutex = None, r_pc = R_done, r_idx = 0, r_ret = 0,
      w_pc = W_done, w_idx = 0, w_ret = 0,
      events =
        [Ev_read 0 2, Ev_publish 0 \<lparr>size_blk = 2, end_blk = False\<rparr>,
         Ev_signal_write_cv, Ev_wakeup Reader, Ev_read 0 1,
         Ev_publish 0 \<lparr>size_blk = 1, end_blk = False\<rparr>, Ev_signal_write_cv,
         Ev_wakeup Reader, Ev_read 0 0,
         Ev_publish 0 \<lparr>size_blk = 0, end_blk = True\<rparr>, Ev_signal_write_cv,
         Ev_exit Reader, Ev_write 0 0 0, Ev_exit Writer]\<rparr>"

text \<open>A ring of five slots of 1 GiB each.\<close>

definition cfg_wide :: config where
  "cfg_wide = \<lparr>block_size = 1073741824, num_block = 5\<rparr>"

text \<open>
  Claim C1 asks that the output equals the input whenever no \<open>read\<close> or \<open>write\<close> fails and
  both threads have exited. In the run \<open>sched_overrun\<close> of the three-byte copy every \<open>read\<close>
  returns the next bytes of the file (2, 1 and 0 of them), the one \<open>write\<close> transfers all
  it is asked for, both threads exit and \<open>main\<close> returns 0, but the output is empty: the
  reader, returning unsignalled from its wait, has twice refilled the one slot before the
  writer came to it.

  Apart from that, \<open>buf_idx\<close> multiplies in \<open>unsigned int\<close> while \<open>main\<close> sizes the buffer in
  \<open>size_t\<close>: in a ring of five slots of 1 GiB the buffer has 5 GiB, and slot 4 lies at the
  same offset as slot 0.
\<close>

theorem copy_loses_bytes:
  "exec cfg_small env_small sched_overrun (main_init cfg_small env_small) = Some st_overrun
   \<and> src_bad_after env_small = None \<and> dst_room env_small = None
   \<and> 1 \<le> block_size cfg_small \<and> 1 \<le> num_block cfg_small
   \<and> r_pc st_overrun = R_done \<and> w_pc st_overrun = W_done
   \<and> main_exit st_overrun = Some 0
   \<and> src_data env_small = [1, 2, 3] \<and> file_out st_overrun = []
   \<and> length (buf (main_init cfg_wide env_small)) = 5368709120
   \<and> buf_idx cfg_wide 4 = buf_idx cfg_wide 0"
  by (simp add: sched_overrun_def st_overrun_def cfg_small_def env_small_def run_defs
                main_exit_def cfg_wide_def)

section \<open>The progress counters\<close>

text \<open>
  Claim C2 asks that \<open>read\<close> and \<open>wrote\<close> both equal the length \<open>L\<close> of the input when both
  threads have exited. \<open>writerThread\<close> adds \<open>blocks[idx].size\<close> to \<open>wrote\<close> after it has
  released the slot, so the reader may have stored the next chunk's size there already.
  In the run \<open>sched_reader_first\<close> of the three-byte copy (no wait returns unsignalled)
  both threads exit, the output is the input and \<open>read = 3\<close>, but \<open>wrote = 1\<close>; in the run
  \<open>sched_writer_first\<close> of the same copy \<open>wrote = 3\<close>.
\<close>

theorem wrote_counter_race:
  "exec cfg_small env_small sched_reader_first (main_init cfg_small env_small)
     = Some st_reader_first
   \<and> r_pc st_reader_first = R_done \<and> w_pc st_reader_first = W_done
   \<and> file_out st_reader_first = src_data env_small
   \<and> length (src_data env_small) = 3
   \<and> read st_reader_first = 3 \<and> wrote st_reader_first = 1
   \<and> exec cfg_small env_small sched_writer_first (main_init cfg_small env_small)
     = Some st_writer_first
   \<and> r_pc st_writer_first = R_done \<and> w_pc st_writer_first = W_done
   \<and> read st_writer_first = 3 \<and> wrote st_writer_first = 3"
  using run_reader_first run_writer_first
  by (simp add: st_reader_first_def st_writer_first_def env_small_def)

section \<open>Input lengths at a block boundary\<close>

text \<open>
  A file of exactly one block, copied through one slot: the reader fills the slot, waits,
  returns unsignalled, reads the end of the file into the same slot, publishes it and
  exits; then the writer runs.
\<close>

definition env_two :: environ where
  "env_two = \<lparr>src_data = [1, 2], src_bad_after = None, dst_room = None,
               malloc_fill = (\<lambda>_. 0)\<rparr>"

definition sched_boundary :: "tid list" where
  "sched_boundary =
     [Reader, Reader, Reader, Reader, Reader, Reader, Reader, Reader, Reader,
      Reader, Reader, Reader, Reader, Reader, Reader, Reader, Reader, Reader,
      Reader, Reader, Reader, Reader, Reader, Reader, Reader, Writer, Writer,
      Writer, Writer, Writer, Writer, Writer]"

definition st_boundary :: state where
  "st_boundary =
     \<lparr>blocks = [\<lparr>size_blk = 0, end_blk = True\<rparr>], buf = [1, 2], numToWrite = 2,
      file_in = 2, file_out = [], read = 2, wrote = 0, fsize = 2, rwaits = 1,
      wwaits = 0, rw_mutex = None, r_pc = R_done, r_idx = 0, r_ret = 0,
      w_pc = W_done, w_idx = 0, w_ret = 0,
      events =
        [Ev_read 0 2, Ev_publish 0 \<lparr>size_blk = 2, end_blk = False\<rparr>,
         Ev_signal_write_cv, Ev_wakeup Reader, Ev_read 0 0,
         Ev_publish 0 \<lparr>size_blk = 0, end_blk = True\<rparr>, Ev_signal_write_cv,
         Ev_exit Reader, Ev_write 0 0 0, Ev_exit Writer]\<rparr>"

text \<open>The empty file, the reader first; no wait is entered.\<close>

definition sched_empty :: "tid list" where
  "sched_empty =
     [Reader, Reader, Reader, Reader, Reader, Reader, Reader, Reader, Reader,
      Reader, Reader, Writer, Writer, Writer, Writer, Writer, Writer, Writer]"

definition st_empty :: state where
  "st_empty =
     \<lparr>blocks = [\<lparr>size_blk = 0, end_blk = True\<rparr>], buf = [0, 0], numToWrite = 1,
      file_in = 0, file_out = [], read = 0, wrote = 0, fsize = 0, rwaits = 0,
      wwaits = 0, rw_mutex = None, r_pc = R_done, r_idx = 0, r_ret = 0,
      w_pc = W_done, w_idx = 0, w_ret = 0,
      events =
        [Ev_read 0 0, Ev_publish 0 \<lparr>size_blk = 0, end_blk = True\<rparr>,
         Ev_signal_write_cv, Ev_exit Reader, Ev_write 0 0 0,
         Ev_exit Writer]\<rparr>"

text \<open>
  Claim C8 asks that inputs whose length is an exact multiple of \<open>block_size\<close> (or one byte
  off) copy correctly, the empty input through a single end-marked slot. In the run
  \<open>sched_boundary\<close> the input has exactly \<open>block_size\<close> bytes, no \<open>read\<close> or \<open>write\<close> fails,
  both threads exit and \<open>main\<close> returns 0, but the output is empty: returning unsignalled
  from its wait, the reader has put the zero-length end-marked slot over the one full
  slot before the writer came to it. The run \<open>sched_empty\<close> of the empty input goes as the
  claim says: one slot published, of size 0 and end-marked, one zero-length \<open>write\<close>, both
  threads out, nothing in the output.
\<close>

theorem boundary_copy_loses_bytes:
  "exec cfg_small env_two sched_boundary (main_init cfg_small env_two) = Some st_boundary
   \<and> length (src_data env_two) = unat (block_size cfg_small)
   \<and> src_bad_after env_two = None \<and> dst_room env_two = None
   \<and> r_pc st_boundary = R_done \<and> w_pc st_boundary = W_done
   \<and> main_exit st_boundary = Some 0
   \<and> src_data env_two = [1, 2] \<and> file_out st_boundary = []
   \<and> n_wake (events st_boundary) = 1
   \<and> exec cfg_small env_empty sched_empty (main_init cfg_small env_empty) = Some st_empty
   \<and> src_data env_empty = []
   \<and> pubs (events st_empty) = [(0, \<lparr>size_blk = 0, end_blk = True\<rparr>)]
   \<and> writes (events st_empty) = [(0, 0)]
   \<and> r_pc st_empty = R_done \<and> w_pc st_empty = W_done \<and> file_out st_empty = []
   \<and> n_wake (events st_empty) = 0"
  by (simp add: sched_boundary_def st_boundary_def env_two_def sched_empty_def st_empty_def
                env_empty_def cfg_small_def run_defs main_exit_def
                n_wake_def pubs_def writes_def upt_conv_Cons)

section \<open>Error-free copies, block by block\<close>


text \<open>The \<open>k\<close>-th block of the input file, and the metadata of the slot that carries it.\<close>

definition chunk :: "config \<Rightarrow> environ \<Rightarrow> nat \<Rightarrow> byte list" where
  "chunk cfg env k = take (unat (block_size cfg)) (drop (k * unat (block_size cfg)) (src_data env))"

definition meta :: "config \<Rightarrow> environ \<Rightarrow> nat \<Rightarrow> block" where
  "meta cfg env k =
     \<lparr>size_blk = of_nat (length (chunk cfg env k)), end_blk = (chunk cfg env k = [])\<rparr>"








subsection \<open>Loading and storing in the buffer\<close>




subsection \<open>Conversions between the integer types\<close>







subsection \<open>The data invariant\<close>




text \<open>Every published slot carries the metadata of its block of the file.\<close>

definition pubs_meta :: "config \<Rightarrow> environ \<Rightarrow> event list \<Rightarrow> bool" where
  "pubs_meta cfg env es = (\<forall>k < n_pub es. snd (pubs es ! k) = meta cfg env k)"



lemma pubs_meta_Nil [simp]: "pubs_meta cfg env []"
  by (simp add: pubs_meta_def)

lemma pubs_meta_other [simp]:
  "pub_of e = [] \<Longrightarrow> pubs_meta cfg env (es @ [e]) = pubs_meta cfg env es"
  by (simp add: pubs_meta_def)














section \<open>Every error-free copy can run to its end\<close>

subsection \<open>Who waits, waits for a reason\<close>






subsection \<open>Every step uses up some of the work left\<close>








subsection \<open>Some thread can always move\<close>







subsection \<open>A run to the end\<close>




subsection \<open>What has arrived when the threads exit\<close>



section \<open>The end-to-end scenario\<close>











section \<open>The end marker\<close>

subsection \<open>The flag in every run\<close>

text \<open>
  What the reader does with the end flag does not depend on the counter, so it holds
  whether or not a wait returned unsignalled: the flag is on the slot under the reader's
  cursor from the moment the reader sets it, and on no other slot; and a slot published
  with the flag is the last one published.
\<close>

definition flag_inv :: "config \<Rightarrow> state \<Rightarrow> bool" where
  "flag_inv cfg s =
     (ret_ok (r_pc s) (r_ret s)
      \<and> ends_at (unat (num_block cfg)) (blocks s) (unat (r_idx s))
            (r_end_now (r_pc s) (r_ret s))
      \<and> pub_ends (events s) (r_pc s) (r_ret s))"

lemma flag_inv_init: "flag_inv cfg (main_init cfg env)"
  by (simp add: flag_inv_def main_init_def no_end_flag_def pub_ends_def)

lemma flag_inv_reader:
  assumes ring: "ring_inv cfg s" and fl: "flag_inv cfg s"
    and st: "readerThread_step cfg env s = Some s'"
  shows "flag_inv cfg s'"
proof -
  from ring have len: "length (blocks s) = unat (num_block cfg)"
    and rin: "unat (r_idx s) < unat (num_block cfg)"
    by (simp_all add: ring_inv_def)
  from fl have e: "ends_at (unat (num_block cfg)) (blocks s) (unat (r_idx s))
                     (r_end_now (r_pc s) (r_ret s))"
    by (simp add: flag_inv_def)
  have flag: "end_blk (blocks s ! unat (r_idx s)) = r_end_now (r_pc s) (r_ret s)"
    by (rule ends_at_self [OF e rin])
  from st show ?thesis
  proof (cases rule: reader_stepE)
    case switch_eof
    with fl len show ?thesis
      by (clarsimp simp: flag_inv_def ends_at_set_end pub_ends_unpublished)
  next
    case err_end
    with fl len show ?thesis
      by (clarsimp simp: flag_inv_def ends_at_set_end pub_ends_unpublished)
  next
    case inc
    with flag have "end_blk (blocks s ! unat (r_idx s)) = (r_ret s = 0)" by simp
    with fl inc show ?thesis
      by (clarsimp simp: flag_inv_def pub_ends_unpublished pub_ends_published
                    only_last_end_publish simp del: ends_at_False)
  next
    case endchk_end
    with flag have "r_ret s = 0" by simp
    with fl endchk_end show ?thesis
      by (clarsimp simp: flag_inv_def pub_ends_published simp del: ends_at_False)
  next
    case endchk_more
    with flag have "r_ret s \<noteq> 0" by simp
    with fl endchk_more show ?thesis
      by (clarsimp simp: flag_inv_def pub_ends_published pub_ends_unpublished
                    only_last_end_retire)
  qed (use fl len in
        \<open>(clarsimp simp: flag_inv_def pub_ends_unpublished pub_ends_published; fail)\<close>)+
qed

lemma flag_inv_writer:
  assumes "flag_inv cfg s" "writerThread_step cfg env s = Some s'"
  shows "flag_inv cfg s'"
  using assms(2)
proof (cases rule: writer_stepE)
  case signal
  with assms(1) show ?thesis
    by (cases "r_pc s = R_wait") (simp_all add: flag_inv_def pub_ends_unpublished)
qed (use assms(1) in \<open>(clarsimp simp: flag_inv_def; fail)\<close>)+

lemma reachable_flag_inv:
  assumes "0 < unat (num_block cfg)" "reachable cfg env s"
  shows "flag_inv cfg s"
  using assms(2)
proof (induction rule: reachable.induct)
  case reach_init
  show ?case by (rule flag_inv_init)
next
  case (reach_step s t s')
  from reachable_ring_inv [OF assms(1) reach_step(1)] have ring: "ring_inv cfg s" .
  show ?case
  proof (cases t)
    case Reader
    with reach_step(2) have "readerThread_step cfg env s = Some s'" by simp
    from flag_inv_reader [OF ring reach_step(3) this] show ?thesis .
  next
    case Writer
    with reach_step(2) have "writerThread_step cfg env s = Some s'" by simp
    from flag_inv_writer [OF reach_step(3) this] show ?thesis .
  qed
qed

text \<open>
  Between its \<open>write\<close> of a slot and its decrement for it, and for good once it has exited,
  the writer's cursor is on the slot it wrote last.
\<close>

definition last_write_inv :: "state \<Rightarrow> bool" where
  "last_write_inv s =
     (w_wrote (w_pc s) = 1
        \<longrightarrow> writes (events s) \<noteq> [] \<and> fst (last (writes (events s))) = w_idx s)"

lemma last_write_inv_init: "last_write_inv (main_init cfg env)"
  by (simp add: last_write_inv_def main_init_def)

lemma last_write_inv_reader:
  "last_write_inv s \<Longrightarrow> readerThread_step cfg env s = Some s' \<Longrightarrow> last_write_inv s'"
  by (erule reader_stepE; clarsimp simp: last_write_inv_def)

lemma last_write_inv_writer:
  "last_write_inv s \<Longrightarrow> writerThread_step cfg env s = Some s' \<Longrightarrow> last_write_inv s'"
  by (erule writer_stepE; clarsimp simp: last_write_inv_def)

lemma reachable_last_write_inv: "reachable cfg env s \<Longrightarrow> last_write_inv s"
proof (induction rule: reachable.induct)
  case reach_init
  show ?case by (rule last_write_inv_init)
next
  case (reach_step s t s')
  then show ?case by (cases t) (auto intro: last_write_inv_reader last_write_inv_writer)
qed

subsection \<open>The flag after a failed read\<close>

text \<open>
  Claim C9 asks that at most one slot ever carries the end flag and that this slot is the
  last the reader publishes and the last the writer consumes, in every execution.

  The first half holds, and so does the second wherever the marked slot is published. In
  every reachable state of a ring of at least one slot, whether or not a wait returned
  unsignalled: no slot is marked initially; at most one slot of the ring is marked, the
  one under the reader's cursor, the reader being on its way out; a slot published with
  the flag is the last published (and was published after a \<open>read\<close> that returned 0);
  and once the writer has exited, its last \<open>write\<close> was for the slot under its cursor,
  which is marked.

  After a failed \<open>read\<close> the second half fails. When the reader has left through its error
  branch, the slot under its cursor is marked but no published slot is, and the reader
  will publish nothing more: the marked slot is not the last slot the reader publishes.
  If moreover no wait has returned unsignalled, every slot the writer has written is a
  slot of the published sequence, so the writer has not consumed the marked slot, and it
  has not exited.
\<close>

theorem end_marker_lost_on_read_error:
  assumes "reachable cfg env s" and "0 < unat (num_block cfg)"
  shows "no_end_flag (unat (num_block cfg)) (blocks (main_init cfg env))
       \<and> (\<forall>i < unat (num_block cfg). \<forall>j < unat (num_block cfg).
             end_blk (blocks s ! i) \<and> end_blk (blocks s ! j) \<longrightarrow> i = j)
       \<and> (\<forall>i < unat (num_block cfg). end_blk (blocks s ! i)
             \<longrightarrow> i = unat (r_idx s) \<and> r_end_now (r_pc s) (r_ret s))
       \<and> (\<forall>k < n_pub (events s). end_blk (snd (pubs (events s) ! k))
             \<longrightarrow> Suc k = n_pub (events s) \<and> r_ret s = 0)
       \<and> (w_pc s = W_done
             \<longrightarrow> writes (events s) \<noteq> [] \<and> fst (last (writes (events s))) = w_idx s
                 \<and> end_blk (blocks s ! unat (w_idx s)))
       \<and> (r_pc s = R_done \<and> r_ret s = - 1
             \<longrightarrow> end_blk (blocks s ! unat (r_idx s))
                 \<and> (\<forall>k < n_pub (events s). \<not> end_blk (snd (pubs (events s) ! k)))
                 \<and> readerThread_step cfg env s = None
                 \<and> (n_wake (events s) = 0
                       \<longrightarrow> (\<forall>k < n_wr (events s). k < n_pub (events s)
                               \<and> writes (events s) ! k
                                   = (fst (pubs (events s) ! k),
                                      size_blk (snd (pubs (events s) ! k))))
                           \<and> w_pc s \<noteq> W_done))"
proof -
  from reachable_flag_inv [OF assms(2,1)]
  have e: "ends_at (unat (num_block cfg)) (blocks s) (unat (r_idx s))
             (r_end_now (r_pc s) (r_ret s))"
    and p: "pub_ends (events s) (r_pc s) (r_ret s)"
    by (simp_all add: flag_inv_def)
  from reachable_ring_inv [OF assms(2,1)]
  have rin: "unat (r_idx s) < unat (num_block cfg)" by (simp add: ring_inv_def)
  have 1: "no_end_flag (unat (num_block cfg)) (blocks (main_init cfg env))"
    by (simp add: no_end_flag_def main_init_def)
  have 3: "\<forall>i < unat (num_block cfg). end_blk (blocks s ! i)
             \<longrightarrow> i = unat (r_idx s) \<and> r_end_now (r_pc s) (r_ret s)"
    using e by (simp add: ends_at_def del: ends_at_False)
  then have 2: "\<forall>i < unat (num_block cfg). \<forall>j < unat (num_block cfg).
             end_blk (blocks s ! i) \<and> end_blk (blocks s ! j) \<longrightarrow> i = j"
    by blast
  have 4: "\<forall>k < n_pub (events s). end_blk (snd (pubs (events s) ! k))
             \<longrightarrow> Suc k = n_pub (events s) \<and> r_ret s = 0"
    using p by (simp add: pub_ends_def)
  have 5: "w_pc s = W_done
             \<longrightarrow> writes (events s) \<noteq> [] \<and> fst (last (writes (events s))) = w_idx s
                 \<and> end_blk (blocks s ! unat (w_idx s))"
    using reachable_last_write_inv [OF assms(1)] reachable_writer_inv [OF assms(1)]
    by (simp add: last_write_inv_def writer_inv_def)
  have 6: "end_blk (blocks s ! unat (r_idx s))
                 \<and> (\<forall>k < n_pub (events s). \<not> end_blk (snd (pubs (events s) ! k)))
                 \<and> readerThread_step cfg env s = None
                 \<and> (n_wake (events s) = 0
                       \<longrightarrow> (\<forall>k < n_wr (events s). k < n_pub (events s)
                               \<and> writes (events s) ! k
                                   = (fst (pubs (events s) ! k),
                                      size_blk (snd (pubs (events s) ! k))))
                           \<and> w_pc s \<noteq> W_done)"
    if rd: "r_pc s = R_done" and rr: "r_ret s = - 1"
  proof -
    from e rd have "ends_at (unat (num_block cfg)) (blocks s) (unat (r_idx s)) True"
      by simp
    from ends_at_self [OF this rin] have a: "end_blk (blocks s ! unat (r_idx s))" by simp
    from 4 rr have b: "\<forall>k < n_pub (events s). \<not> end_blk (snd (pubs (events s) ! k))"
      by auto
    from rd have c: "readerThread_step cfg env s = None"
      by (simp add: readerThread_step_def)
    have d: "(\<forall>k < n_wr (events s). k < n_pub (events s)
                \<and> writes (events s) ! k
                    = (fst (pubs (events s) ! k), size_blk (snd (pubs (events s) ! k))))
             \<and> w_pc s \<noteq> W_done"
      if nw: "n_wake (events s) = 0"
    proof -
      from assms(1) nw have i: "inv cfg s" by (rule reachable_inv)
      then have f: "fifo (events s)" and dn: "w_done_ok (events s) (w_pc s)"
        by (simp_all add: inv_def fifo_inv_def)
      from f have w: "\<forall>k < n_wr (events s). k < n_pub (events s)
             \<and> writes (events s) ! k
                 = (fst (pubs (events s) ! k), size_blk (snd (pubs (events s) ! k)))"
        by (simp add: fifo_def)
      have "w_pc s \<noteq> W_done"
      proof
        assume "w_pc s = W_done"
        with dn have n: "0 < n_wr (events s)"
          and l: "end_blk (snd (pubs (events s) ! (n_wr (events s) - 1)))"
          by (simp_all add: w_done_ok_def)
        from w n have "n_wr (events s) - 1 < n_pub (events s)" by simp
        with b l show False by simp
      qed
      with w show ?thesis by simp
    qed
    from a b c d show ?thesis by blast
  qed
  from 1 2 3 4 5 6 show ?thesis by blast
qed

theorem end_marker_lost_on_read_error_witness:
  "reachable cfg_small env_bad st_bad_end \<and> 0 < unat (num_block cfg_small)
   \<and> n_wake (events st_bad_end) = 0
   \<and> r_pc st_bad_end = R_done \<and> r_ret st_bad_end = - 1
   \<and> blocks st_bad_end = [\<lparr>size_blk = 0, end_blk = True\<rparr>]
   \<and> pubs (events st_bad_end) = [(0, \<lparr>size_blk = 2, end_blk = False\<rparr>)]
   \<and> writes (events st_bad_end) = [(0, 2)]
   \<and> w_pc st_bad_end = W_wait"
  using end_marker_lost_on_read_error [OF reachable_bad_end] reachable_bad_end
  by (simp add: st_bad_end_def cfg_small_def n_wake_def pubs_def writes_def)

end
